theory Spec2Isabelle
  imports Main "HOL-Library.Word"
begin

unbundle bit_operations_syntax

section \<open>The tlrandom driver: constants and data\<close>

text \<open>
  The driver is one C file, \<^verbatim>\<open>tlrandomfix.c\<close>, whose header \<^verbatim>\<open>tlrandom.h\<close> is not part
  of the sources. The header declares the structs, the global variables, the macros
  and the constant tables. What the C file only uses from it is a parameter of the
  model:
  \<^item> the macros and tables are the fields of the record \<open>hdr\<close>, each used where the C
    text uses the macro;
  \<^item> the width of the health-test counters is the type variable \<open>'w\<close>: counters are
    unsigned words, \<open>+\<close> wraps, and comparisons are made on the values (\<open>unat\<close>), as
    C's integer promotions do for unsigned operands;
  \<^item> samples, status bytes and signatures are bytes (\<^verbatim>\<open>uint8_t value\<close>).
  The \<^verbatim>\<open>errno\<close> values are those of Linux; \<^verbatim>\<open>SUCCESS\<close> is 0 (the C text tests
  \<^verbatim>\<open>if (retval)\<close> for failure). Words are laid out in memory least significant byte
  first.
\<close>

type_synonym u8 = "8 word"
type_synonym u32 = "32 word"

definition SUCCESS :: int where "SUCCESS = 0"
definition EPERM :: int where "EPERM = 1"
definition ENOMEM :: int where "ENOMEM = 12"
definition EFAULT :: int where "EFAULT = 14"
definition ENODATA :: int where "ENODATA = 61"
definition ETIMEDOUT :: int where "ETIMEDOUT = 110"

record hdr =
  RND_IN_BUFFSIZE :: nat
  TRND_OUT_BUFFSIZE :: nat
  WORD_SIZE_BYTES :: nat
  MIN_INPUT_NUM_WORDS :: nat
  OUT_NUM_WORDS :: nat
  USB_BUFFER_SIZE :: nat
  USB_READ_MAX_RETRY_CNT :: nat
  USB_READ_TIMEOUT_SECS :: int
  numConsecFailThreshold :: nat
  k_table :: "u32 list"
  testSeq1 :: "u32 list"
  exptHashSeq1 :: "u32 list"

text \<open>
  Modelled from the spec: \<^verbatim>\<open>maxDataBlockSizeWords\<close> is declared in the absent header;
  the spec has the hash process a message in 512-bit (16-word) chunks, and the C text
  indexes \<^verbatim>\<open>sd.w[t-16]\<close> for \<open>t\<close> from 16.
\<close>

definition maxDataBlockSizeWords :: nat where
  "maxDataBlockSizeWords = 16"

subsection \<open>Bytes and words in memory\<close>

definition word_bytes :: "u32 \<Rightarrow> u8 list" where
  "word_bytes w = [ucast w, ucast (drop_bit 8 w), ucast (drop_bit 16 w), ucast (drop_bit 24 w)]"

definition load_word :: "u8 list \<Rightarrow> nat \<Rightarrow> u32" where
  \<comment> \<open>\<^verbatim>\<open>((uint32_t *)buf)[i]\<close>\<close>
  "load_word buf i =
     ucast (buf ! (4 * i)) OR push_bit 8 (ucast (buf ! (4 * i + 1)))
       OR push_bit 16 (ucast (buf ! (4 * i + 2))) OR push_bit 24 (ucast (buf ! (4 * i + 3)))"

fun write_at :: "'a list \<Rightarrow> nat \<Rightarrow> 'a list \<Rightarrow> 'a list" where
  \<comment> \<open>stores \<open>bs\<close> from index \<open>off\<close>; a store past the end of the array, which in C
      overruns the allocation, is dropped here and excluded by \<open>drv_ok\<close> below\<close>
  "write_at buf off [] = buf"
| "write_at buf off (b # bs) = write_at (buf[off := b]) (Suc off) bs"

fun memcmp :: "u8 list \<Rightarrow> u8 list \<Rightarrow> nat \<Rightarrow> int" where
  \<comment> \<open>the kernel's \<^verbatim>\<open>memcmp\<close>: the difference of the first two bytes that differ
      among the first \<open>count\<close>, 0 when there is none\<close>
  "memcmp (a # as) (b # bs) (Suc count) =
     (if a \<noteq> b then int (unat a) - int (unat b) else memcmp as bs count)"
| "memcmp _ _ _ = 0"

section \<open>Conditioning: SHA-256 with a serial number\<close>

text \<open>
  Modelled from the spec: the macro \<^verbatim>\<open>ROTR\<close> is declared in the absent header; the C
  comments name the FIPS PUB 180-4 formulas (4.2) to (4.7), where it is the rotation
  of a 32-bit word to the right.
\<close>

definition ROTR :: "nat \<Rightarrow> u32 \<Rightarrow> u32" where
  "ROTR n x = word_rotr n x"

definition sha256_ch :: "u32 \<Rightarrow> u32 \<Rightarrow> u32 \<Rightarrow> u32" where
  "sha256_ch x y z = (x AND y) XOR (NOT x AND z)"

definition sha256_maj :: "u32 \<Rightarrow> u32 \<Rightarrow> u32 \<Rightarrow> u32" where
  "sha256_maj x y z = (x AND y) XOR (x AND z) XOR (y AND z)"

definition sha256_sum0 :: "u32 \<Rightarrow> u32" where
  "sha256_sum0 x = ROTR 2 x XOR ROTR 13 x XOR ROTR 22 x"

definition sha256_sum1 :: "u32 \<Rightarrow> u32" where
  "sha256_sum1 x = ROTR 6 x XOR ROTR 11 x XOR ROTR 25 x"

definition sha256_sigma0 :: "u32 \<Rightarrow> u32" where
  "sha256_sigma0 x = ROTR 7 x XOR ROTR 18 x XOR drop_bit 3 x"

definition sha256_sigma1 :: "u32 \<Rightarrow> u32" where
  "sha256_sigma1 x = ROTR 17 x XOR ROTR 19 x XOR drop_bit 10 x"

definition sha256_initialize :: "u32 list" where
  \<comment> \<open>\<^verbatim>\<open>sd.h0 .. sd.h7\<close>\<close>
  "sha256_initialize = [0x6a09e667, 0xbb67ae85, 0x3c6ef372, 0xa54ff53a,
                        0x510e527f, 0x9b05688c, 0x1f83d9ab, 0x5be0cd19]"

definition schedule_step :: "u32 list \<Rightarrow> nat \<Rightarrow> u32 list" where
  "schedule_step w t =
     w[t := sha256_sigma1 (w ! (t - 2)) + w ! (t - 7) + sha256_sigma0 (w ! (t - 15)) + w ! (t - 16)]"

definition round_step :: "u32 list \<Rightarrow> u32 list \<Rightarrow> u32 list \<Rightarrow> nat \<Rightarrow> u32 list" where
  \<comment> \<open>the working variables \<^verbatim>\<open>sd.a .. sd.h\<close> as a list of eight\<close>
  "round_step kt w v t =
     (case v of
        [a, b, c, d, e, f, g, h] \<Rightarrow>
          (let tmp1 = h + sha256_sum1 e + sha256_ch e f g + kt ! t + w ! t;
               tmp2 = sha256_sum0 a + sha256_maj a b c
           in [tmp1 + tmp2, a, b, c, d + tmp1, e, f, g])
      | _ \<Rightarrow> v)"

definition sha256_hashCurrentBlock :: "u32 list \<Rightarrow> u32 list \<Rightarrow> u32 list \<Rightarrow> u32 list" where
  \<comment> \<open>\<open>hs\<close> is \<^verbatim>\<open>sd.h0 .. sd.h7\<close>, \<open>w16\<close> is \<^verbatim>\<open>sd.w[0 .. 15]\<close>; the entries
      \<^verbatim>\<open>sd.w[16 .. 63]\<close> are written before they are read\<close>
  "sha256_hashCurrentBlock kt hs w16 =
     (let w = foldl schedule_step (w16 @ replicate 48 0) [16..<64];
          v = foldl (round_step kt w) hs [0..<64]
      in map2 (+) hs v)"

definition sha256_generateHash :: "u32 list \<Rightarrow> u32 list \<Rightarrow> 16 word \<Rightarrow> u32 list option" where
  \<comment> \<open>\<open>len\<close> is the \<^verbatim>\<open>int16_t\<close> parameter, read as a signed value; \<open>None\<close>: the C
      function returns -1 and leaves \<^verbatim>\<open>dst\<close> alone; \<open>Some d\<close>: it returns 0 and has
      stored \<open>d\<close> in \<^verbatim>\<open>dst[0 .. 7]\<close>\<close>
  "sha256_generateHash kt src len =
     (if sint len \<le> 0 then None
      else
        (let initialMessageSize = (word_of_int (sint len * 8 * 4) :: u32);
             numCompleteDataBlocks = nat (sint len) div maxDataBlockSizeWords;
             reminder = nat (sint len) mod maxDataBlockSizeWords;
             hs1 = foldl (\<lambda>hs blockNum.
                      sha256_hashCurrentBlock kt hs
                        (take maxDataBlockSizeWords (drop (blockNum * maxDataBlockSizeWords) src)))
                    sha256_initialize [0..<numCompleteDataBlocks];
             srcOffset = numCompleteDataBlocks * maxDataBlockSizeWords
         in Some
           (if 0 < reminder then
              (let w = take reminder (drop srcOffset src) @ [0x80000000];
                   ui8 = reminder + 1
               in if ui8 < maxDataBlockSizeWords - 1 then
                    sha256_hashCurrentBlock kt hs1
                      (w @ replicate (maxDataBlockSizeWords - 2 - ui8) 0 @ [0, initialMessageSize])
                  else
                    (let hs2 = sha256_hashCurrentBlock kt hs1 (take maxDataBlockSizeWords (w @ [0]))
                     in sha256_hashCurrentBlock kt hs2
                          (replicate (maxDataBlockSizeWords - 2) 0 @ [0, initialMessageSize])))
            else
              sha256_hashCurrentBlock kt hs1
                ([0x80000000] @ replicate (maxDataBlockSizeWords - 3) 0 @ [0, initialMessageSize]))))"

definition sha256_stampSerialNumber :: "hdr \<Rightarrow> u32 list \<Rightarrow> u32 \<Rightarrow> u32 list \<times> u32" where
  \<comment> \<open>the input block and \<^verbatim>\<open>sd.blockSerialNumber\<close>, before and after\<close>
  "sha256_stampSerialNumber h inw blockSerialNumber =
     (inw[MIN_INPUT_NUM_WORDS h := blockSerialNumber], blockSerialNumber + 1)"

definition sha256_initializeSerialNumber :: "u32 \<Rightarrow> u32" where
  "sha256_initializeSerialNumber initValue = initValue"

definition sha256_selfTest :: "hdr \<Rightarrow> int" where
  "sha256_selfTest h =
     (case sha256_generateHash (k_table h) (testSeq1 h) 11 of
        None \<Rightarrow> - 1
      | Some results \<Rightarrow>
          memcmp (concat (map word_bytes results)) (concat (map word_bytes (exptHashSeq1 h))) 8)"

section \<open>Health tests\<close>

subsection \<open>Repetition count test\<close>

record (overloaded) 'w rct_data =
  rct_isInitialized :: bool
  rct_lastSample :: u8
  rct_curRepetitions :: "'w word"
  rct_maxRepetitions :: "'w word"
  rct_failureWindow :: "'w word"
  rct_failureCount :: "'w word"
  rct_statusByte :: u8
  rct_signature :: u8

definition rct_restart :: "'w::len rct_data \<Rightarrow> 'w rct_data" where
  "rct_restart r =
     r\<lparr>rct_isInitialized := False, rct_curRepetitions := 1,
       rct_failureWindow := 0, rct_failureCount := 0\<rparr>"

definition rct_initialize :: "'w::len rct_data" where
  "rct_initialize =
     rct_restart
       \<lparr>rct_isInitialized = False, rct_lastSample = 0, rct_curRepetitions = 0,
        rct_maxRepetitions = 5, rct_failureWindow = 0, rct_failureCount = 0,
        rct_statusByte = 0, rct_signature = 1\<rparr>"

definition rct_sample :: "hdr \<Rightarrow> u8 \<Rightarrow> 'w::len rct_data \<Rightarrow> 'w rct_data" where
  "rct_sample h v r =
     (if \<not> rct_isInitialized r then
        r\<lparr>rct_isInitialized := True, rct_lastSample := v\<rparr>
      else if rct_lastSample r = v then
        (let r1 = r\<lparr>rct_curRepetitions := rct_curRepetitions r + 1\<rparr> in
         if unat (rct_maxRepetitions r1) \<le> unat (rct_curRepetitions r1) then
           (let r2 = r1\<lparr>rct_curRepetitions := 1\<rparr>;
                r3 = r2\<lparr>rct_failureCount := rct_failureCount r2 + 1\<rparr> in
            if numConsecFailThreshold h \<le> unat (rct_failureCount r3) then
              (if rct_statusByte r3 = 0
               then r3\<lparr>rct_statusByte := rct_signature r3\<rparr> else r3)
            else r3)
         else r1)
      else
        r\<lparr>rct_lastSample := v, rct_curRepetitions := 1\<rparr>)"

subsection \<open>Adaptive proportion test\<close>

record (overloaded) 'w apt_data =
  apt_isInitialized :: bool
  apt_firstSample :: u8
  apt_curRepetitions :: "'w word"
  apt_curSamples :: "'w word"
  apt_windowSize :: "'w word"
  apt_cutoffValue :: "'w word"
  apt_cycleFailures :: "'w word"
  apt_statusByte :: u8
  apt_signature :: u8

definition apt_restart_cycle :: "'w::len apt_data \<Rightarrow> 'w apt_data" where
  "apt_restart_cycle a = a\<lparr>apt_cycleFailures := 0\<rparr>"

definition apt_restart :: "'w::len apt_data \<Rightarrow> 'w apt_data" where
  "apt_restart a = apt_restart_cycle (a\<lparr>apt_isInitialized := False\<rparr>)"

definition apt_initialize :: "'w::len apt_data" where
  "apt_initialize =
     apt_restart
       \<lparr>apt_isInitialized = False, apt_firstSample = 0, apt_curRepetitions = 0,
        apt_curSamples = 0, apt_windowSize = 64, apt_cutoffValue = 5,
        apt_cycleFailures = 0, apt_statusByte = 0, apt_signature = 2\<rparr>"

definition apt_sample :: "hdr \<Rightarrow> u8 \<Rightarrow> 'w::len apt_data \<Rightarrow> 'w apt_data" where
  "apt_sample h v a =
     (if \<not> apt_isInitialized a then
        a\<lparr>apt_isInitialized := True, apt_firstSample := v,
          apt_curRepetitions := 0, apt_curSamples := 0\<rparr>
      else
        (let a1 = a\<lparr>apt_curSamples := apt_curSamples a + 1\<rparr>;
             a2 = (if unat (apt_windowSize a1) \<le> unat (apt_curSamples a1)
                   then a1\<lparr>apt_isInitialized := False\<rparr> else a1) in
         if apt_firstSample a2 = v then
           (let a3 = a2\<lparr>apt_curRepetitions := apt_curRepetitions a2 + 1\<rparr> in
            if unat (apt_cutoffValue a3) < unat (apt_curRepetitions a3) then
              (let a4 = a3\<lparr>apt_cycleFailures := apt_cycleFailures a3 + 1\<rparr> in
               if numConsecFailThreshold h \<le> unat (apt_cycleFailures a4) then
                 (if apt_statusByte a4 = 0
                  then a4\<lparr>apt_statusByte := apt_signature a4\<rparr> else a4)
               else a4)
            else apt_restart_cycle a3)
         else a2))"

section \<open>The driver's globals and the device\<close>

text \<open>
  The globals of the C file are the fields of \<open>drv\<close>. The last three fields are the
  world outside: \<open>usb_out\<close> is what the coming outbound bulk transfers will return
  (the errno \<open>e\<close> of a call that returns \<open>- e\<close>, 0 for success, and the count
  written), \<open>usb_in\<close> what the coming inbound transfers will return (the errno, the
  bytes delivered and the seconds the transfer takes), \<open>clock\<close> is \<^verbatim>\<open>get_seconds()\<close>. When the recorded transfers are used up the
  device is silent and \<^verbatim>\<open>usb_bulk_msg\<close> times out. \<^verbatim>\<open>isShutDown\<close> does not change
  while a call runs. \<^verbatim>\<open>bulk_in_size\<close> is the divisor of a \<^verbatim>\<open>%\<close>: it is positive in
  every state \<open>drv_ok\<close> admits.
\<close>

record (overloaded) 'w drv =
  isEntropySrcRdy :: bool
  isShutDown :: bool
  isDeviceOpPending :: bool
  isUsbOpPending :: bool
  curTrngOutIdx :: nat
  buffRndIn :: "u8 list"
  buffTRndOut :: "u8 list"
  srcToHash :: "u32 list"
  blockSerialNumber :: u32
  rct :: "'w rct_data"
  apt :: "'w apt_data"
  bulk_in_size :: nat
  bulk_out_buffer :: "u8 list"
  usb_out :: "(nat \<times> nat) list"
  usb_in :: "(nat \<times> u8 list \<times> nat) list"
  clock :: int

definition usb_bulk_msg_out :: "'w::len drv \<Rightarrow> int \<times> nat \<times> 'w drv" where
  "usb_bulk_msg_out s =
     (case usb_out s of
        [] \<Rightarrow> (- ETIMEDOUT, 0, s)
      | (e, n) # xs \<Rightarrow> (- int e, n, s\<lparr>usb_out := xs\<rparr>))"

definition usb_bulk_msg_in :: "'w::len drv \<Rightarrow> int \<times> u8 list \<times> 'w drv" where
  "usb_bulk_msg_in s =
     (case usb_in s of
        [] \<Rightarrow> (- ETIMEDOUT, [], s)
      | (e, bs, secs) # xs \<Rightarrow> (- int e, bs, s\<lparr>usb_in := xs, clock := clock s + int secs\<rparr>))"

definition same_globals :: "'w::len drv \<Rightarrow> 'w drv \<Rightarrow> bool" where
  \<comment> \<open>the two states differ at most in what the device has left to say and in the clock\<close>
  "same_globals s s1 = (s1 = s\<lparr>usb_out := usb_out s1, usb_in := usb_in s1, clock := clock s1\<rparr>)"

section \<open>Transport\<close>

function chip_extract :: "nat \<Rightarrow> nat \<Rightarrow> u8 list \<Rightarrow> nat \<Rightarrow> u8 list \<Rightarrow> nat \<Rightarrow> u8 list \<times> nat" where
  \<comment> \<open>the \<^verbatim>\<open>for\<close> loop of \<^verbatim>\<open>chip_read_data\<close> from index \<open>i\<close>: \<open>sz\<close> is
      \<^verbatim>\<open>usbData->bulk_in_size\<close>, \<open>bs\<close> the transfer in \<^verbatim>\<open>bulk_in_buffer\<close>;
      \<^verbatim>\<open>i++; continue;\<close> is followed by the loop's own \<^verbatim>\<open>i++\<close>\<close>
  "chip_extract sz len bs i buff cnt =
     (if i < length bs then
        (if i mod sz = 0 then chip_extract sz len bs (i + 2) buff cnt
         else
           (let buff1 = buff[cnt := bs ! i]; cnt1 = cnt + 1
            in if len \<le> cnt1 then (buff1, cnt1)
               else chip_extract sz len bs (i + 1) buff1 cnt1))
      else (buff, cnt))"
  by pat_completeness auto
termination
  by (relation "measure (\<lambda>(sz, len, bs, i, buff, cnt). length bs - i)") auto

declare chip_extract.simps [simp del]

definition chip_take :: "nat \<Rightarrow> nat \<Rightarrow> u8 list \<Rightarrow> u8 list \<Rightarrow> nat \<Rightarrow> u8 list \<times> nat" where
  \<comment> \<open>what one inbound transfer adds to the response\<close>
  "chip_take sz len bs buff cnt =
     (if 2 < length bs then chip_extract sz len bs 0 buff cnt else (buff, cnt))"

function chip_read_loop ::
  "hdr \<Rightarrow> nat \<Rightarrow> int \<Rightarrow> int \<Rightarrow> 'w::len drv \<Rightarrow> u8 list \<Rightarrow> nat \<Rightarrow> int option \<times> u8 list \<times> nat \<times> 'w drv" where
  \<comment> \<open>the \<^verbatim>\<open>do .. while\<close> loop: \<open>Some r\<close> is a \<^verbatim>\<open>return r\<close> from inside the loop,
      \<open>None\<close> the end of the loop\<close>
  "chip_read_loop h len opTimeoutSecs start s buff cnt =
     (if isShutDown s then (Some (- EPERM), buff, cnt, s)
      else
        (case usb_bulk_msg_in s of
           (retval, bs, s1) \<Rightarrow>
             if retval \<noteq> 0 then (Some retval, buff, cnt, s1)
             else if USB_BUFFER_SIZE h < length bs then (Some (- EFAULT), buff, cnt, s1)
             else
               (let secsWaited = clock s1 - start in
                case chip_take (bulk_in_size s1) len bs buff cnt of
                  (buff1, cnt1) \<Rightarrow>
                    if cnt1 < len \<and> secsWaited < opTimeoutSecs
                    then chip_read_loop h len opTimeoutSecs start s1 buff1 cnt1
                    else (None, buff1, cnt1, s1))))"
  by pat_completeness auto
termination
  by (relation "measure (\<lambda>(h, len, t, start, s, buff, cnt). length (usb_in s))")
     (auto simp: usb_bulk_msg_in_def ETIMEDOUT_def split: list.splits)

declare chip_read_loop.simps [simp del]

definition chip_read_data :: "hdr \<Rightarrow> 'w::len drv \<Rightarrow> u8 list \<Rightarrow> nat \<Rightarrow> int \<Rightarrow> int \<times> u8 list \<times> 'w drv" where
  "chip_read_data h s buff len opTimeoutSecs =
     (case chip_read_loop h len opTimeoutSecs (clock s) s buff 0 of
        (Some r, buff1, cnt, s1) \<Rightarrow> (r, buff1, s1)
      | (None, buff1, cnt, s1) \<Rightarrow>
          if cnt \<noteq> len then (- ETIMEDOUT, buff1, s1) else (SUCCESS, buff1, s1))"

datatype loop_exit = Returned | Broke | Exhausted

fun snd_rcv_loop ::
  "hdr \<Rightarrow> nat \<Rightarrow> nat \<Rightarrow> int \<Rightarrow> nat \<Rightarrow> int \<Rightarrow> 'w::len drv \<Rightarrow> u8 list \<Rightarrow> loop_exit \<times> int \<times> u8 list \<times> 'w drv" where
  \<comment> \<open>the \<^verbatim>\<open>for\<close> loop of \<^verbatim>\<open>snd_rcv_usb_data\<close>; the first argument after the
      sizes and the timeout is \<^verbatim>\<open>USB_READ_MAX_RETRY_CNT - retry\<close>, the next the current
      \<^verbatim>\<open>retval\<close>\<close>
  "snd_rcv_loop h sizeSnd sizeRcv opTimeoutSecs 0 retval s rcv = (Exhausted, retval, rcv, s)"
| "snd_rcv_loop h sizeSnd sizeRcv opTimeoutSecs (Suc left) retval s rcv =
     (if isShutDown s then (Returned, - EPERM, rcv, s)
      else
        (case usb_bulk_msg_out s of
           (r1, actualcCnt, s1) \<Rightarrow>
             if r1 = SUCCESS \<and> actualcCnt = sizeSnd then
               (case chip_read_data h s1 rcv (sizeRcv + 1) opTimeoutSecs of
                  (r2, rcv2, s2) \<Rightarrow>
                    if r2 = SUCCESS then
                      (if rcv2 ! sizeRcv \<noteq> 0
                       then snd_rcv_loop h sizeSnd sizeRcv opTimeoutSecs left (- EFAULT) s2 rcv2
                       else (Broke, r2, rcv2, s2))
                    else snd_rcv_loop h sizeSnd sizeRcv opTimeoutSecs left r2 s2 rcv2)
             else snd_rcv_loop h sizeSnd sizeRcv opTimeoutSecs left r1 s1 rcv))"

definition snd_rcv_usb_data ::
  "hdr \<Rightarrow> 'w::len drv \<Rightarrow> nat \<Rightarrow> u8 list \<Rightarrow> nat \<Rightarrow> int \<Rightarrow> int \<times> u8 list \<times> 'w drv" where
  \<comment> \<open>\<^verbatim>\<open>snd\<close> is \<^verbatim>\<open>usbData->bulk_out_buffer\<close>, part of \<open>s\<close>; after the loop
      \<^verbatim>\<open>retry >= USB_READ_MAX_RETRY_CNT\<close> holds exactly when the loop ran out\<close>
  "snd_rcv_usb_data h s sizeSnd rcv sizeRcv opTimeoutSecs =
     (case snd_rcv_loop h sizeSnd sizeRcv opTimeoutSecs (USB_READ_MAX_RETRY_CNT h) SUCCESS s rcv of
        (Exhausted, retval, rcv1, s1) \<Rightarrow> (- ETIMEDOUT, rcv1, s1)
      | (ex, retval, rcv1, s1) \<Rightarrow> (retval, rcv1, s1))"

section \<open>Refill\<close>

definition condition_step :: "hdr \<Rightarrow> 'w::len drv \<Rightarrow> nat \<Rightarrow> nat \<Rightarrow> 'w drv" where
  \<comment> \<open>one pass of the outer \<^verbatim>\<open>for\<close> loop of \<^verbatim>\<open>rcv_rnd_bytes\<close>: \<open>i\<close> indexes the words of
      \<^verbatim>\<open>buffRndIn\<close>, \<open>dst\<close> the words of \<^verbatim>\<open>buffTRndOut\<close>; the length
      \<^verbatim>\<open>MIN_INPUT_NUM_WORDS + 1\<close> is converted to the \<^verbatim>\<open>int16_t\<close> of the parameter\<close>
  "condition_step h s i dst =
     (let src1 = map (\<lambda>j. load_word (buffRndIn s) (i + j)) [0..<MIN_INPUT_NUM_WORDS h]
                   @ drop (MIN_INPUT_NUM_WORDS h) (srcToHash s)
      in case sha256_stampSerialNumber h src1 (blockSerialNumber s) of
           (src2, serial) \<Rightarrow>
             s\<lparr>srcToHash := src2, blockSerialNumber := serial,
               buffTRndOut :=
                 (case sha256_generateHash (k_table h) src2
                        (word_of_nat (MIN_INPUT_NUM_WORDS h + 1)) of
                    None \<Rightarrow> buffTRndOut s
                  | Some d \<Rightarrow> write_at (buffTRndOut s) (4 * dst) (concat (map word_bytes d)))\<rparr>)"

function condition_loop :: "hdr \<Rightarrow> 'w::len drv \<Rightarrow> nat \<Rightarrow> nat \<Rightarrow> 'w drv" where
  \<comment> \<open>with \<^verbatim>\<open>MIN_INPUT_NUM_WORDS\<close> 0 the C loop would not advance; \<open>hdr_ok\<close> excludes it\<close>
  "condition_loop h s i dst =
     (if i < RND_IN_BUFFSIZE h div WORD_SIZE_BYTES h \<and> 0 < MIN_INPUT_NUM_WORDS h
      then condition_loop h (condition_step h s i dst)
             (i + MIN_INPUT_NUM_WORDS h) (dst + OUT_NUM_WORDS h)
      else s)"
  by pat_completeness auto
termination
  by (relation "measure (\<lambda>(h, s, i, dst). RND_IN_BUFFSIZE h div WORD_SIZE_BYTES h - i)") auto

declare condition_loop.simps [simp del]

definition sample_step :: "hdr \<Rightarrow> 'w::len drv \<Rightarrow> nat \<Rightarrow> 'w drv" where
  "sample_step h s i =
     s\<lparr>rct := rct_sample h (buffTRndOut s ! i) (rct s),
       apt := apt_sample h (buffTRndOut s ! i) (apt s)\<rparr>"

definition rcv_exchange :: "hdr \<Rightarrow> 'w::len drv \<Rightarrow> int \<times> 'w drv" where
  \<comment> \<open>the first half of \<^verbatim>\<open>rcv_rnd_bytes\<close>: the command is written and exchanged for
      \<^verbatim>\<open>RND_IN_BUFFSIZE\<close> bytes in \<^verbatim>\<open>buffRndIn\<close>\<close>
  "rcv_exchange h s =
     (let s1 = s\<lparr>isUsbOpPending := True\<rparr>;
          byteCnt = (word_of_nat (RND_IN_BUFFSIZE h) :: 16 word);
          lowByteCount = (ucast (byteCnt AND 0x00ff) :: u8);
          highByteCount = (ucast (drop_bit 8 byteCnt) :: u8);
          s2 = s1\<lparr>bulk_out_buffer :=
                  (bulk_out_buffer s1)[0 := 0x78, 1 := lowByteCount, 2 := highByteCount]\<rparr>
      in case snd_rcv_usb_data h s2 3 (buffRndIn s2) (RND_IN_BUFFSIZE h) (USB_READ_TIMEOUT_SECS h) of
           (retval, rcv, s3) \<Rightarrow> (retval, s3\<lparr>buffRndIn := rcv\<rparr>))"

definition condition_block :: "hdr \<Rightarrow> 'w::len drv \<Rightarrow> 'w drv" where
  \<comment> \<open>the health tests are restarted and the raw block is hashed into \<^verbatim>\<open>buffTRndOut\<close>\<close>
  "condition_block h s =
     condition_loop h (s\<lparr>rct := rct_restart (rct s), apt := apt_restart (apt s)\<rparr>) 0 0"

definition sample_block :: "hdr \<Rightarrow> 'w::len drv \<Rightarrow> 'w drv" where
  "sample_block h s = foldl (sample_step h) s [0..<TRND_OUT_BUFFSIZE h]"

definition rcv_rnd_bytes :: "hdr \<Rightarrow> 'w::len drv \<Rightarrow> int \<times> 'w drv" where
  "rcv_rnd_bytes h s =
     (if \<not> isEntropySrcRdy s \<or> isShutDown s then (- EPERM, s)
      else
        (case rcv_exchange h s of
           (retval, s4) \<Rightarrow>
             if retval = SUCCESS then
               (let s6 = condition_block h s4;
                    s7 = s6\<lparr>curTrngOutIdx := 0\<rparr>;
                    s8 = sample_block h s7;
                    retval1 = (if rct_statusByte (rct s8) \<noteq> 0 then - EPERM
                               else if apt_statusByte (apt s8) \<noteq> 0 then - EPERM
                               else retval)
                in (retval1, s8\<lparr>isUsbOpPending := False\<rparr>))
             else (retval, s4\<lparr>isUsbOpPending := False\<rparr>)))"

definition get_entropy_bytes :: "hdr \<Rightarrow> 'w::len drv \<Rightarrow> int \<times> 'w drv" where
  "get_entropy_bytes h s =
     (if TRND_OUT_BUFFSIZE h \<le> curTrngOutIdx s then rcv_rnd_bytes h s else (SUCCESS, s))"

definition hdr_ok :: "hdr \<Rightarrow> bool" where
  \<comment> \<open>what the header's values must satisfy for the C text to stay inside its arrays:
      four-byte words, eight-word digests stored one after the other within
      \<^verbatim>\<open>buffTRndOut\<close>, whole sub-blocks read from \<^verbatim>\<open>buffRndIn\<close>\<close>
  "hdr_ok h =
     (WORD_SIZE_BYTES h = 4 \<and> OUT_NUM_WORDS h = 8 \<and> 0 < MIN_INPUT_NUM_WORDS h
      \<and> MIN_INPUT_NUM_WORDS h dvd RND_IN_BUFFSIZE h div 4
      \<and> RND_IN_BUFFSIZE h div 4 div MIN_INPUT_NUM_WORDS h * 32 \<le> TRND_OUT_BUFFSIZE h
      \<and> length (k_table h) = 64)"

definition drv_ok :: "hdr \<Rightarrow> 'w::len drv \<Rightarrow> bool" where
  \<comment> \<open>the arrays have the sizes they are allocated with, and the bulk-in packet size
      of the connected device is not 0\<close>
  "drv_ok h s =
     (hdr_ok h \<and> length (buffRndIn s) = RND_IN_BUFFSIZE h + 1
      \<and> length (buffTRndOut s) = TRND_OUT_BUFFSIZE h
      \<and> length (srcToHash s) = MIN_INPUT_NUM_WORDS h + 1
      \<and> 3 \<le> length (bulk_out_buffer s) \<and> 0 < bulk_in_size s)"

section \<open>Reading\<close>

definition copy_to_user :: "u8 list \<Rightarrow> nat \<Rightarrow> u8 list \<Rightarrow> nat \<times> u8 list" where
  \<comment> \<open>\<open>ubuf\<close> is the user memory that can be written from \<^verbatim>\<open>buffer\<close> on; the result is
      the number of bytes that could not be copied, and the memory\<close>
  "copy_to_user ubuf off bs =
     (let n = min (length bs) (length ubuf - off)
      in (length bs - n, write_at ubuf off (take n bs)))"

definition read_chunk :: "hdr \<Rightarrow> 'w::len drv \<Rightarrow> u8 list \<Rightarrow> nat \<Rightarrow> nat \<Rightarrow> bool \<times> int \<times> 'w drv \<times> u8 list \<times> nat" where
  \<comment> \<open>the body of the \<^verbatim>\<open>do .. while\<close> loop of \<^verbatim>\<open>device_read\<close>; the first component
      tells whether the body ended in \<^verbatim>\<open>break\<close>\<close>
  "read_chunk h s ubuf tot len =
     (case get_entropy_bytes h s of
        (retval, s1) \<Rightarrow>
          if retval = SUCCESS then
            (let act0 = TRND_OUT_BUFFSIZE h - curTrngOutIdx s1;
                 act = (if len - tot < act0 then len - tot else act0)
             in case copy_to_user ubuf tot (take act (drop (curTrngOutIdx s1) (buffTRndOut s1))) of
                  (left, ubuf1) \<Rightarrow>
                    if left \<noteq> 0 then (True, - EFAULT, s1, ubuf1, tot)
                    else (False, int (tot + act),
                          s1\<lparr>curTrngOutIdx := curTrngOutIdx s1 + act\<rparr>, ubuf1, tot + act))
          else (True, retval, s1, ubuf, tot))"

section \<open>What the transport and the refill leave alone\<close>

lemma same_globals_refl [simp]: "same_globals s s"
  by (simp add: same_globals_def)

lemma same_globals_upd [simp]:
  "same_globals s (s\<lparr>usb_out := uo\<rparr>)"
  "same_globals s (s\<lparr>usb_in := ui, clock := ck\<rparr>)"
  by (simp_all add: same_globals_def)

lemma same_globals_trans: "same_globals s s1 \<Longrightarrow> same_globals s1 s2 \<Longrightarrow> same_globals s s2"
  by (cases s; cases s1; cases s2) (auto simp: same_globals_def)

lemma same_globals_fields:
  "same_globals s s1 \<Longrightarrow>
     isEntropySrcRdy s1 = isEntropySrcRdy s \<and> isShutDown s1 = isShutDown s
     \<and> isDeviceOpPending s1 = isDeviceOpPending s \<and> isUsbOpPending s1 = isUsbOpPending s
     \<and> curTrngOutIdx s1 = curTrngOutIdx s \<and> buffRndIn s1 = buffRndIn s
     \<and> buffTRndOut s1 = buffTRndOut s \<and> srcToHash s1 = srcToHash s
     \<and> blockSerialNumber s1 = blockSerialNumber s \<and> rct s1 = rct s \<and> apt s1 = apt s
     \<and> bulk_in_size s1 = bulk_in_size s \<and> bulk_out_buffer s1 = bulk_out_buffer s"
  by (cases s; cases s1) (auto simp: same_globals_def)

lemma usb_bulk_msg_out_frame:
  "usb_bulk_msg_out s = (r, n, s1) \<Longrightarrow>
     same_globals s s1 \<and> r \<le> 0 \<and> length (usb_out s1) \<le> length (usb_out s)
        \<and> (r = 0 \<longrightarrow> length (usb_out s1) < length (usb_out s))"
  by (auto simp: usb_bulk_msg_out_def ETIMEDOUT_def split: list.splits)

lemma usb_bulk_msg_in_frame:
  "usb_bulk_msg_in s = (r, bs, s1) \<Longrightarrow> r \<le> 0 \<and> same_globals s s1 \<and> usb_out s1 = usb_out s"
  by (auto simp: usb_bulk_msg_in_def ETIMEDOUT_def split: list.splits)

lemma chip_read_loop_frame:
  "chip_read_loop h len t start s buff cnt = (r, buff1, cnt1, s1) \<Longrightarrow>
     same_globals s s1 \<and> usb_out s1 = usb_out s \<and> (\<forall>e. r = Some e \<longrightarrow> e < 0)"
proof (induction h len t start s buff cnt rule: chip_read_loop.induct)
  case (1 h len t start s buff cnt)
  show ?case
  proof (cases "isShutDown s")
    case True
    with "1.prems" show ?thesis
      by (subst (asm) chip_read_loop.simps) (auto simp: EPERM_def)
  next
    case False
    obtain rv bs sa where u: "usb_bulk_msg_in s = (rv, bs, sa)"
      by (cases "usb_bulk_msg_in s") auto
    from usb_bulk_msg_in_frame[OF u] have
      rv: "rv \<le> 0" and sa: "same_globals s sa" "usb_out sa = usb_out s" by auto
    obtain b2 c2 where ct: "chip_take (bulk_in_size sa) len bs buff cnt = (b2, c2)"
      by (cases "chip_take (bulk_in_size sa) len bs buff cnt") auto
    show ?thesis
    proof (cases "rv = 0 \<and> \<not> USB_BUFFER_SIZE h < length bs \<and> c2 < len \<and> clock sa - start < t")
      case True
      with "1.prems" False u ct
      have "chip_read_loop h len t start sa b2 c2 = (r, buff1, cnt1, s1)"
        by (subst (asm) chip_read_loop.simps) auto
      from "1.IH"[OF False u[symmetric] refl _ _ refl ct[symmetric] _ this] True
      have "same_globals sa s1 \<and> usb_out s1 = usb_out sa \<and> (\<forall>e. r = Some e \<longrightarrow> e < 0)"
        by auto
      with sa show ?thesis by (auto intro: same_globals_trans)
    next
      case F2: False
      with "1.prems" False u ct rv sa show ?thesis
        by (subst (asm) chip_read_loop.simps)
           (auto simp: EFAULT_def split: if_splits)
    qed
  qed
qed

lemma chip_read_data_frame:
  "chip_read_data h s buff len t = (r, buff1, s1) \<Longrightarrow>
     same_globals s s1 \<and> usb_out s1 = usb_out s \<and> r \<le> 0"
  unfolding chip_read_data_def
  by (auto simp: ETIMEDOUT_def SUCCESS_def split: prod.splits option.splits if_splits
           dest!: chip_read_loop_frame)

lemma snd_rcv_loop_frame:
  "snd_rcv_loop h sizeSnd sizeRcv t left retval s rcv = (ex, r, rcv1, s1) \<Longrightarrow>
     same_globals s s1 \<and> length (usb_out s1) \<le> length (usb_out s)
     \<and> (ex = Broke \<longrightarrow> r = SUCCESS \<and> rcv1 ! sizeRcv = 0 \<and> length (usb_out s1) < length (usb_out s))
     \<and> (ex = Returned \<longrightarrow> r = - EPERM)"
proof (induction left arbitrary: retval s rcv)
  case 0
  then show ?case by auto
next
  case (Suc left)
  show ?case
  proof (cases "isShutDown s")
    case True
    with Suc.prems show ?thesis by auto
  next
    case False
    obtain r1 n sa where u: "usb_bulk_msg_out s = (r1, n, sa)"
      by (cases "usb_bulk_msg_out s") auto
    note fa = usb_bulk_msg_out_frame[OF u]
    obtain r2 rcv2 sb where c: "chip_read_data h sa rcv (sizeRcv + 1) t = (r2, rcv2, sb)"
      by (cases "chip_read_data h sa rcv (sizeRcv + 1) t") auto
    note fb = chip_read_data_frame[OF c]
    have sab: "same_globals s sb" using fa fb by (auto intro: same_globals_trans)
    consider (brk) "r1 = SUCCESS" "n = sizeSnd" "r2 = SUCCESS" "rcv2 ! sizeRcv = 0"
      | (bad) "r1 = SUCCESS" "n = sizeSnd" "r2 = SUCCESS" "rcv2 ! sizeRcv \<noteq> 0"
      | (rd) "r1 = SUCCESS" "n = sizeSnd" "r2 \<noteq> SUCCESS"
      | (snd) "\<not> (r1 = SUCCESS \<and> n = sizeSnd)" by blast
    then show ?thesis
    proof cases
      case brk
      with Suc.prems False u c fa fb sab show ?thesis by (auto simp: SUCCESS_def)
    next
      case bad
      with Suc.prems False u c
      have "snd_rcv_loop h sizeSnd sizeRcv t left (- EFAULT) sb rcv2 = (ex, r, rcv1, s1)" by auto
      from Suc.IH[OF this] fa fb sab show ?thesis by (auto intro: same_globals_trans)
    next
      case rd
      with Suc.prems False u c
      have "snd_rcv_loop h sizeSnd sizeRcv t left r2 sb rcv2 = (ex, r, rcv1, s1)" by auto
      from Suc.IH[OF this] fa fb sab show ?thesis by (auto intro: same_globals_trans)
    next
      case snd
      with Suc.prems False u
      have "snd_rcv_loop h sizeSnd sizeRcv t left r1 sa rcv = (ex, r, rcv1, s1)" by auto
      from Suc.IH[OF this] fa show ?thesis by (auto intro: same_globals_trans)
    qed
  qed
qed

lemma snd_rcv_usb_data_frame:
  "snd_rcv_usb_data h s sizeSnd rcv sizeRcv t = (r, rcv1, s1) \<Longrightarrow>
     same_globals s s1 \<and> length (usb_out s1) \<le> length (usb_out s)
     \<and> (r = SUCCESS \<or> r = - EPERM \<or> r = - ETIMEDOUT)
     \<and> (r = SUCCESS \<longrightarrow> rcv1 ! sizeRcv = 0 \<and> length (usb_out s1) < length (usb_out s))"
proof -
  assume a: "snd_rcv_usb_data h s sizeSnd rcv sizeRcv t = (r, rcv1, s1)"
  obtain ex r0 rcv0 s0 where
    l: "snd_rcv_loop h sizeSnd sizeRcv t (USB_READ_MAX_RETRY_CNT h) SUCCESS s rcv = (ex, r0, rcv0, s0)"
    by (cases "snd_rcv_loop h sizeSnd sizeRcv t (USB_READ_MAX_RETRY_CNT h) SUCCESS s rcv") auto
  from snd_rcv_loop_frame[OF l] a l show ?thesis
    by (cases ex) (auto simp: snd_rcv_usb_data_def SUCCESS_def ETIMEDOUT_def EPERM_def)
qed

subsection \<open>The latch is sticky\<close>

lemma rct_restart_status [simp]: "rct_statusByte (rct_restart r) = rct_statusByte r"
  by (simp add: rct_restart_def)

lemma apt_restart_status [simp]: "apt_statusByte (apt_restart a) = apt_statusByte a"
  by (simp add: apt_restart_def apt_restart_cycle_def)

lemma rct_sample_latched:
  "rct_statusByte r \<noteq> 0 \<Longrightarrow> rct_statusByte (rct_sample h v r) = rct_statusByte r"
  by (simp add: rct_sample_def Let_def)

lemma apt_sample_latched:
  "apt_statusByte a \<noteq> 0 \<Longrightarrow> apt_statusByte (apt_sample h v a) = apt_statusByte a"
  by (simp add: apt_sample_def apt_restart_cycle_def Let_def)

lemma sample_step_fields [simp]:
  "curTrngOutIdx (sample_step h s i) = curTrngOutIdx s"
  "buffTRndOut (sample_step h s i) = buffTRndOut s"
  "blockSerialNumber (sample_step h s i) = blockSerialNumber s"
  "isEntropySrcRdy (sample_step h s i) = isEntropySrcRdy s"
  "isShutDown (sample_step h s i) = isShutDown s"
  "isDeviceOpPending (sample_step h s i) = isDeviceOpPending s"
  "usb_out (sample_step h s i) = usb_out s"
  "usb_in (sample_step h s i) = usb_in s"
  "bulk_in_size (sample_step h s i) = bulk_in_size s"
  "buffRndIn (sample_step h s i) = buffRndIn s"
  "srcToHash (sample_step h s i) = srcToHash s"
  "bulk_out_buffer (sample_step h s i) = bulk_out_buffer s"
  by (simp_all add: sample_step_def)

lemma sample_step_latched:
  "rct_statusByte (rct s) \<noteq> 0 \<Longrightarrow>
     rct_statusByte (rct (sample_step h s i)) = rct_statusByte (rct s)"
  "apt_statusByte (apt s) \<noteq> 0 \<Longrightarrow>
     apt_statusByte (apt (sample_step h s i)) = apt_statusByte (apt s)"
  by (simp_all add: sample_step_def rct_sample_latched apt_sample_latched)

lemma foldl_sample_fields:
  "curTrngOutIdx (foldl (sample_step h) s is) = curTrngOutIdx s
   \<and> buffTRndOut (foldl (sample_step h) s is) = buffTRndOut s
   \<and> blockSerialNumber (foldl (sample_step h) s is) = blockSerialNumber s
   \<and> isEntropySrcRdy (foldl (sample_step h) s is) = isEntropySrcRdy s
   \<and> isShutDown (foldl (sample_step h) s is) = isShutDown s
   \<and> isDeviceOpPending (foldl (sample_step h) s is) = isDeviceOpPending s
   \<and> usb_out (foldl (sample_step h) s is) = usb_out s
   \<and> usb_in (foldl (sample_step h) s is) = usb_in s
   \<and> bulk_in_size (foldl (sample_step h) s is) = bulk_in_size s
   \<and> buffRndIn (foldl (sample_step h) s is) = buffRndIn s
   \<and> srcToHash (foldl (sample_step h) s is) = srcToHash s
   \<and> bulk_out_buffer (foldl (sample_step h) s is) = bulk_out_buffer s"
  by (induction "is" arbitrary: s) simp_all

lemma foldl_sample_latched:
  "rct_statusByte (rct s) \<noteq> 0 \<Longrightarrow>
     rct_statusByte (rct (foldl (sample_step h) s is)) = rct_statusByte (rct s)"
  "apt_statusByte (apt s) \<noteq> 0 \<Longrightarrow>
     apt_statusByte (apt (foldl (sample_step h) s is)) = apt_statusByte (apt s)"
  by (induction "is" arbitrary: s) (simp_all add: sample_step_latched)

lemmas sample_block_fields = foldl_sample_fields [of h s "[0..<TRND_OUT_BUFFSIZE h]", folded sample_block_def] for h s

lemma sample_block_latched:
  "rct_statusByte (rct s) \<noteq> 0 \<Longrightarrow> rct_statusByte (rct (sample_block h s)) = rct_statusByte (rct s)"
  "apt_statusByte (apt s) \<noteq> 0 \<Longrightarrow> apt_statusByte (apt (sample_block h s)) = apt_statusByte (apt s)"
  by (simp_all add: sample_block_def foldl_sample_latched)

subsection \<open>Conditioning touches the hash input, the serial number and the output block\<close>

lemma length_write_at [simp]: "length (write_at buf off bs) = length buf"
  by (induction bs arbitrary: buf off) simp_all

lemma condition_step_fields [simp]:
  "curTrngOutIdx (condition_step h s i dst) = curTrngOutIdx s"
  "isEntropySrcRdy (condition_step h s i dst) = isEntropySrcRdy s"
  "isShutDown (condition_step h s i dst) = isShutDown s"
  "isDeviceOpPending (condition_step h s i dst) = isDeviceOpPending s"
  "isUsbOpPending (condition_step h s i dst) = isUsbOpPending s"
  "usb_out (condition_step h s i dst) = usb_out s"
  "usb_in (condition_step h s i dst) = usb_in s"
  "bulk_in_size (condition_step h s i dst) = bulk_in_size s"
  "buffRndIn (condition_step h s i dst) = buffRndIn s"
  "bulk_out_buffer (condition_step h s i dst) = bulk_out_buffer s"
  "rct (condition_step h s i dst) = rct s"
  "apt (condition_step h s i dst) = apt s"
  "length (buffTRndOut (condition_step h s i dst)) = length (buffTRndOut s)"
  "blockSerialNumber (condition_step h s i dst) = blockSerialNumber s + 1"
  by (simp_all add: condition_step_def sha256_stampSerialNumber_def Let_def split: option.splits)

lemma condition_loop_unfold:
  "i < RND_IN_BUFFSIZE h div WORD_SIZE_BYTES h \<Longrightarrow> 0 < MIN_INPUT_NUM_WORDS h \<Longrightarrow>
     condition_loop h s i dst =
       condition_loop h (condition_step h s i dst) (i + MIN_INPUT_NUM_WORDS h) (dst + OUT_NUM_WORDS h)"
  by (subst condition_loop.simps) simp

lemma condition_loop_stop:
  assumes "\<not> (i < RND_IN_BUFFSIZE h div WORD_SIZE_BYTES h \<and> 0 < MIN_INPUT_NUM_WORDS h)"
  shows "condition_loop h s i dst = s"
  by (subst condition_loop.simps) (simp only: assms if_False)

lemma condition_loop_fields:
  "curTrngOutIdx (condition_loop h s i dst) = curTrngOutIdx s
   \<and> isEntropySrcRdy (condition_loop h s i dst) = isEntropySrcRdy s
   \<and> isShutDown (condition_loop h s i dst) = isShutDown s
   \<and> isDeviceOpPending (condition_loop h s i dst) = isDeviceOpPending s
   \<and> isUsbOpPending (condition_loop h s i dst) = isUsbOpPending s
   \<and> usb_out (condition_loop h s i dst) = usb_out s
   \<and> usb_in (condition_loop h s i dst) = usb_in s
   \<and> bulk_in_size (condition_loop h s i dst) = bulk_in_size s
   \<and> buffRndIn (condition_loop h s i dst) = buffRndIn s
   \<and> bulk_out_buffer (condition_loop h s i dst) = bulk_out_buffer s
   \<and> rct (condition_loop h s i dst) = rct s
   \<and> apt (condition_loop h s i dst) = apt s
   \<and> length (buffTRndOut (condition_loop h s i dst)) = length (buffTRndOut s)"
proof (induction h s i dst rule: condition_loop.induct)
  case (1 h s i dst)
  show ?case
  proof (cases "i < RND_IN_BUFFSIZE h div WORD_SIZE_BYTES h \<and> 0 < MIN_INPUT_NUM_WORDS h")
    case True
    from "1.IH"[OF True] True show ?thesis
      by (simp add: condition_loop_unfold)
  next
    case False
    then show ?thesis by (simp only: condition_loop_stop[OF False] simp_thms)
  qed
qed

subsection \<open>The refill\<close>

lemma rcv_exchange_frame:
  assumes "rcv_exchange h s = (r, s4)"
  shows "rct s4 = rct s \<and> apt s4 = apt s \<and> curTrngOutIdx s4 = curTrngOutIdx s
     \<and> buffTRndOut s4 = buffTRndOut s \<and> blockSerialNumber s4 = blockSerialNumber s
     \<and> srcToHash s4 = srcToHash s \<and> isEntropySrcRdy s4 = isEntropySrcRdy s
     \<and> isShutDown s4 = isShutDown s \<and> isDeviceOpPending s4 = isDeviceOpPending s
     \<and> bulk_in_size s4 = bulk_in_size s
     \<and> length (usb_out s4) \<le> length (usb_out s)
     \<and> (r = SUCCESS \<or> r = - EPERM \<or> r = - ETIMEDOUT)
     \<and> (r = SUCCESS \<longrightarrow> buffRndIn s4 ! RND_IN_BUFFSIZE h = 0
            \<and> length (usb_out s4) < length (usb_out s))"
proof -
  define s2 where "s2 = s\<lparr>isUsbOpPending := True,
     bulk_out_buffer := (bulk_out_buffer s)
       [0 := 0x78, 1 := ucast ((word_of_nat (RND_IN_BUFFSIZE h) :: 16 word) AND 0x00ff),
        2 := ucast (drop_bit 8 (word_of_nat (RND_IN_BUFFSIZE h) :: 16 word))]\<rparr>"
  obtain r0 rcv s3 where
    e: "snd_rcv_usb_data h s2 3 (buffRndIn s2) (RND_IN_BUFFSIZE h) (USB_READ_TIMEOUT_SECS h) = (r0, rcv, s3)"
    by (cases "snd_rcv_usb_data h s2 3 (buffRndIn s2) (RND_IN_BUFFSIZE h) (USB_READ_TIMEOUT_SECS h)") auto
  from assms e have r: "r = r0" and s4: "s4 = s3\<lparr>buffRndIn := rcv\<rparr>"
    by (auto simp: rcv_exchange_def Let_def s2_def)
  note f = snd_rcv_usb_data_frame[OF e]
  from f have g: "same_globals s2 s3" by simp
  show ?thesis
    using same_globals_fields[OF g] f r s4 by (simp add: s2_def)
qed

lemma condition_block_fields:
  "curTrngOutIdx (condition_block h s) = curTrngOutIdx s
   \<and> isEntropySrcRdy (condition_block h s) = isEntropySrcRdy s
   \<and> isShutDown (condition_block h s) = isShutDown s
   \<and> isDeviceOpPending (condition_block h s) = isDeviceOpPending s
   \<and> usb_out (condition_block h s) = usb_out s
   \<and> usb_in (condition_block h s) = usb_in s
   \<and> bulk_in_size (condition_block h s) = bulk_in_size s
   \<and> buffRndIn (condition_block h s) = buffRndIn s
   \<and> rct_statusByte (rct (condition_block h s)) = rct_statusByte (rct s)
   \<and> apt_statusByte (apt (condition_block h s)) = apt_statusByte (apt s)
   \<and> length (buffTRndOut (condition_block h s)) = length (buffTRndOut s)"
  unfolding condition_block_def
  using condition_loop_fields
          [of h "s\<lparr>rct := rct_restart (rct s), apt := apt_restart (apt s)\<rparr>" 0 0]
  by simp

lemma rcv_rnd_bytes_frame:
  assumes "rcv_rnd_bytes h s = (r, s')"
  shows "isEntropySrcRdy s' = isEntropySrcRdy s \<and> isShutDown s' = isShutDown s
     \<and> isDeviceOpPending s' = isDeviceOpPending s \<and> bulk_in_size s' = bulk_in_size s
     \<and> length (buffTRndOut s') = length (buffTRndOut s)
     \<and> length (usb_out s') \<le> length (usb_out s)
     \<and> (r = SUCCESS \<longrightarrow> length (usb_out s') < length (usb_out s))
     \<and> (curTrngOutIdx s' = curTrngOutIdx s \<or> curTrngOutIdx s' = 0)
     \<and> (r = SUCCESS \<longrightarrow> curTrngOutIdx s' = 0)
     \<and> r \<le> 0"
proof (cases "\<not> isEntropySrcRdy s \<or> isShutDown s")
  case True
  with assms show ?thesis by (auto simp: rcv_rnd_bytes_def EPERM_def SUCCESS_def)
next
  case False
  obtain r0 s4 where e: "rcv_exchange h s = (r0, s4)" by (cases "rcv_exchange h s") auto
  note f = rcv_exchange_frame[OF e]
  show ?thesis
  proof (cases "r0 = SUCCESS")
    case True
    define s7 where "s7 = (condition_block h s4)\<lparr>curTrngOutIdx := 0\<rparr>"
    from assms False e True have s': "s' = (sample_block h s7)\<lparr>isUsbOpPending := False\<rparr>"
      and r: "r = SUCCESS \<or> r = - EPERM"
      by (auto simp: rcv_rnd_bytes_def Let_def s7_def)
    show ?thesis
      using f True r s' sample_block_fields[of h s7] condition_block_fields[of h s4]
      by (auto simp: s7_def SUCCESS_def EPERM_def)
  next
    case F: False
    with assms False e have "s' = s4\<lparr>isUsbOpPending := False\<rparr>" "r = r0"
      by (auto simp: rcv_rnd_bytes_def)
    with f F show ?thesis by (auto simp: SUCCESS_def EPERM_def ETIMEDOUT_def)
  qed
qed

lemma rcv_rnd_bytes_no_exchange:
  assumes "rcv_rnd_bytes h s = (r, s')"
    and "\<not> isEntropySrcRdy s \<or> isShutDown s \<or> fst (rcv_exchange h s) \<noteq> SUCCESS"
  shows "r \<noteq> SUCCESS \<and> buffTRndOut s' = buffTRndOut s \<and> curTrngOutIdx s' = curTrngOutIdx s
     \<and> blockSerialNumber s' = blockSerialNumber s \<and> rct s' = rct s \<and> apt s' = apt s"
proof (cases "\<not> isEntropySrcRdy s \<or> isShutDown s")
  case True
  with assms show ?thesis by (auto simp: rcv_rnd_bytes_def EPERM_def SUCCESS_def)
next
  case False
  obtain r0 s4 where e: "rcv_exchange h s = (r0, s4)" by (cases "rcv_exchange h s") auto
  with assms False have "r0 \<noteq> SUCCESS" by auto
  with assms(1) False e have "s' = s4\<lparr>isUsbOpPending := False\<rparr>" "r = r0"
    by (auto simp: rcv_rnd_bytes_def)
  with rcv_exchange_frame[OF e] \<open>r0 \<noteq> SUCCESS\<close> show ?thesis by auto
qed

lemma rcv_rnd_bytes_latched:
  assumes "rcv_rnd_bytes h s = (r, s')"
    and "rct_statusByte (rct s) \<noteq> 0 \<or> apt_statusByte (apt s) \<noteq> 0"
  shows "r \<noteq> SUCCESS
     \<and> (rct_statusByte (rct s) \<noteq> 0 \<longrightarrow> rct_statusByte (rct s') = rct_statusByte (rct s))
     \<and> (apt_statusByte (apt s) \<noteq> 0 \<longrightarrow> apt_statusByte (apt s') = apt_statusByte (apt s))
     \<and> (isEntropySrcRdy s \<and> \<not> isShutDown s \<and> fst (rcv_exchange h s) = SUCCESS \<longrightarrow>
           r = - EPERM \<and> curTrngOutIdx s' = 0
           \<and> buffTRndOut s' = buffTRndOut (condition_block h (snd (rcv_exchange h s))))"
proof (cases "\<not> isEntropySrcRdy s \<or> isShutDown s \<or> fst (rcv_exchange h s) \<noteq> SUCCESS")
  case True
  from rcv_rnd_bytes_no_exchange[OF assms(1) True] True show ?thesis by auto
next
  case False
  obtain r0 s4 where e: "rcv_exchange h s = (r0, s4)" by (cases "rcv_exchange h s") auto
  with False have r0: "r0 = SUCCESS" by auto
  note f = rcv_exchange_frame[OF e]
  define s7 where "s7 = (condition_block h s4)\<lparr>curTrngOutIdx := 0\<rparr>"
  have st7: "rct_statusByte (rct s7) = rct_statusByte (rct s)"
            "apt_statusByte (apt s7) = apt_statusByte (apt s)"
    using condition_block_fields[of h s4] f by (simp_all add: s7_def)
  from assms(1) False e r0 have s': "s' = (sample_block h s7)\<lparr>isUsbOpPending := False\<rparr>"
    and r: "r = (if rct_statusByte (rct (sample_block h s7)) \<noteq> 0 then - EPERM
                 else if apt_statusByte (apt (sample_block h s7)) \<noteq> 0 then - EPERM else SUCCESS)"
    by (auto simp: rcv_rnd_bytes_def Let_def s7_def)
  have keep: "rct_statusByte (rct s) \<noteq> 0 \<Longrightarrow>
                rct_statusByte (rct (sample_block h s7)) = rct_statusByte (rct s)"
             "apt_statusByte (apt s) \<noteq> 0 \<Longrightarrow>
                apt_statusByte (apt (sample_block h s7)) = apt_statusByte (apt s)"
    using sample_block_latched[of s7 h] st7 by simp_all
  have buf: "buffTRndOut s' = buffTRndOut (condition_block h s4)" "curTrngOutIdx s' = 0"
    using s' sample_block_fields[of h s7] by (simp_all add: s7_def)
  show ?thesis
    using assms(2) keep r s' buf e by (auto simp: EPERM_def SUCCESS_def)
qed

lemma get_entropy_bytes_frame:
  assumes "get_entropy_bytes h s = (r, s')"
  shows "isEntropySrcRdy s' = isEntropySrcRdy s \<and> isShutDown s' = isShutDown s
     \<and> isDeviceOpPending s' = isDeviceOpPending s \<and> bulk_in_size s' = bulk_in_size s
     \<and> length (buffTRndOut s') = length (buffTRndOut s)
     \<and> length (usb_out s') \<le> length (usb_out s)
     \<and> (r = SUCCESS \<and> TRND_OUT_BUFFSIZE h \<le> curTrngOutIdx s
           \<longrightarrow> length (usb_out s') < length (usb_out s))
     \<and> (r = SUCCESS \<longrightarrow> curTrngOutIdx s' < TRND_OUT_BUFFSIZE h \<or> curTrngOutIdx s' = 0)
     \<and> (curTrngOutIdx s \<le> TRND_OUT_BUFFSIZE h \<longrightarrow> curTrngOutIdx s' \<le> TRND_OUT_BUFFSIZE h)
     \<and> r \<le> 0"
proof (cases "TRND_OUT_BUFFSIZE h \<le> curTrngOutIdx s")
  case True
  with assms have "rcv_rnd_bytes h s = (r, s')" by (simp add: get_entropy_bytes_def)
  from rcv_rnd_bytes_frame[OF this] True show ?thesis by auto
next
  case False
  with assms show ?thesis by (auto simp: get_entropy_bytes_def SUCCESS_def)
qed

section \<open>The read loop\<close>

lemma read_chunk_progress:
  assumes "read_chunk h s ubuf tot len = (False, r, s1, ubuf1, tot1)" and "tot1 < len"
  shows "length (usb_out s1) < length (usb_out s)
     \<or> (length (usb_out s1) = length (usb_out s) \<and> len - tot1 < len - tot)"
proof -
  obtain r0 s0 where g: "get_entropy_bytes h s = (r0, s0)"
    by (cases "get_entropy_bytes h s") auto
  from assms(1) g have r0: "r0 = SUCCESS"
    by (auto simp: read_chunk_def Let_def split: if_splits prod.splits)
  define act where "act = (if len - tot < TRND_OUT_BUFFSIZE h - curTrngOutIdx s0
                           then len - tot else TRND_OUT_BUFFSIZE h - curTrngOutIdx s0)"
  from assms(1) g r0 have s1: "usb_out s1 = usb_out s0" and t1: "tot1 = tot + act"
    by (auto simp: read_chunk_def Let_def act_def split: if_splits prod.splits)
  note f = get_entropy_bytes_frame[OF g]
  show ?thesis
  proof (cases "TRND_OUT_BUFFSIZE h \<le> curTrngOutIdx s")
    case True
    with f r0 s1 show ?thesis by simp
  next
    case False
    with g have "s0 = s" by (simp add: get_entropy_bytes_def)
    with False assms(2) t1 s1 show ?thesis by (auto simp: act_def split: if_splits)
  qed
qed

function read_loop :: "hdr \<Rightarrow> 'w::len drv \<Rightarrow> u8 list \<Rightarrow> nat \<Rightarrow> nat \<Rightarrow> int \<times> 'w drv \<times> u8 list" where
  \<comment> \<open>the \<^verbatim>\<open>do .. while (total < length)\<close> loop of \<^verbatim>\<open>device_read\<close>\<close>
  "read_loop h s ubuf tot len =
     (case read_chunk h s ubuf tot len of
        (brk, retval, s1, ubuf1, tot1) \<Rightarrow>
          if \<not> brk \<and> tot1 < len then read_loop h s1 ubuf1 tot1 len
          else (retval, s1, ubuf1))"
  by pat_completeness auto
termination
  apply (relation "measures [\<lambda>(h, s, ubuf, tot, len). length (usb_out s),
                            \<lambda>(h, s, ubuf, tot, len). len - tot]")
   apply simp
  apply clarsimp
  apply (drule read_chunk_progress [OF sym])
   apply auto
  done

declare read_loop.simps [simp del]

definition device_read :: "hdr \<Rightarrow> bool \<Rightarrow> 'w::len drv \<Rightarrow> u8 list \<Rightarrow> nat \<Rightarrow> int \<times> 'w drv \<times> u8 list" where
  \<comment> \<open>\<open>locked\<close> tells whether \<^verbatim>\<open>mutex_lock_killable\<close> got the lock; \<open>ubuf\<close> is the
      caller's memory from \<^verbatim>\<open>buffer\<close> on, \<open>len\<close> is \<^verbatim>\<open>length\<close>\<close>
  "device_read h locked s ubuf len =
     (if \<not> locked then (- EPERM, s, ubuf)
      else
        (case (if \<not> isEntropySrcRdy s \<or> isShutDown s then (- ENODATA, s, ubuf)
               else read_loop h (s\<lparr>isDeviceOpPending := True\<rparr>) ubuf 0 len) of
           (retval, s1, ubuf1) \<Rightarrow> (retval, s1\<lparr>isDeviceOpPending := False\<rparr>, ubuf1)))"

record init_env =
  init_char_dev_result :: int
  buffRndIn_allocated :: bool
  buffTRndOut_allocated :: bool
  usb_register_result :: int

definition init_tlrandom :: "hdr \<Rightarrow> init_env \<Rightarrow> 'w::len drv \<Rightarrow> int \<times> 'w drv" where
  \<comment> \<open>\<open>env\<close> is what the kernel answers to the registrations and allocations; the
      contents of the fresh allocations are those of \<open>s\<close>\<close>
  "init_tlrandom h env s =
     (let s1 = s\<lparr>rct := rct_initialize, apt := apt_initialize,
                 blockSerialNumber := sha256_initializeSerialNumber 413145\<rparr>
      in if sha256_selfTest h \<noteq> SUCCESS then (- EPERM, s1)
         else if init_char_dev_result env \<noteq> SUCCESS then (init_char_dev_result env, s1)
         else if \<not> buffRndIn_allocated env then (- ENOMEM, s1)
         else if \<not> buffTRndOut_allocated env then (- ENOMEM, s1)
         else if usb_register_result env < 0 then (usb_register_result env, s1)
         else (SUCCESS, s1))"

section \<open>Example values and reference definitions\<close>

definition k_example :: "u32 list" where
  \<comment> \<open>the round constants of FIPS PUB 180-4, in decimal\<close>
  "k_example =
     [1116352408, 1899447441, 3049323471, 3921009573, 961987163, 1508970993,
      2453635748, 2870763221, 3624381080, 310598401, 607225278, 1426881987,
      1925078388, 2162078206, 2614888103, 3248222580, 3835390401, 4022224774,
      264347078, 604807628, 770255983, 1249150122, 1555081692, 1996064986,
      2554220882, 2821834349, 2952996808, 3210313671, 3336571891, 3584528711,
      113926993, 338241895, 666307205, 773529912, 1294757372, 1396182291,
      1695183700, 1986661051, 2177026350, 2456956037, 2730485921, 2820302411,
      3259730800, 3345764771, 3516065817, 3600352804, 4094571909, 275423344,
      430227734, 506948616, 659060556, 883997877, 958139571, 1322822218,
      1537002063, 1747873779, 1955562222, 2024104815, 2227730452, 2361852424,
      2428436474, 2756734187, 3204031479, 3329325298]"

definition hdr_example :: hdr where
  \<comment> \<open>a small header: one sub-block of ten words per raw block; the test sequence is
      ten zero words and the word 413145, the expected hash its SHA-256 digest\<close>
  "hdr_example =
     \<lparr>RND_IN_BUFFSIZE = 40, TRND_OUT_BUFFSIZE = 32, WORD_SIZE_BYTES = 4,
      MIN_INPUT_NUM_WORDS = 10, OUT_NUM_WORDS = 8, USB_BUFFER_SIZE = 64,
      USB_READ_MAX_RETRY_CNT = 2, USB_READ_TIMEOUT_SECS = 5, numConsecFailThreshold = 5,
      k_table = k_example,
      testSeq1 = [0, 0, 0, 0, 0, 0, 0, 0, 0, 0, 413145],
      exptHashSeq1 =
        [3283306696, 2183399749, 2762730705, 493944639,
         1760801533, 1529333858, 676896189, 386078000]\<rparr>"

definition rct_run :: "hdr \<Rightarrow> 'w::len rct_data \<Rightarrow> u8 list \<Rightarrow> 'w rct_data" where
  \<comment> \<open>the test is fed the bytes in their order, as by the sampling loop of
      \<^verbatim>\<open>rcv_rnd_bytes\<close>\<close>
  "rct_run h r vs = foldl (\<lambda>r v. rct_sample h v r) r vs"

definition apt_run :: "hdr \<Rightarrow> 'w::len apt_data \<Rightarrow> u8 list \<Rightarrow> 'w apt_data" where
  "apt_run h a vs = foldl (\<lambda>a v. apt_sample h v a) a vs"

definition rct_example :: "16 rct_data" where
  \<comment> \<open>the test after \<open>rct_initialize\<close> and twenty bytes 7: four failures counted,
      three repetitions into the next\<close>
  "rct_example =
     \<lparr>rct_isInitialized = True, rct_lastSample = 7, rct_curRepetitions = 4,
      rct_maxRepetitions = 5, rct_failureWindow = 0, rct_failureCount = 4,
      rct_statusByte = 0, rct_signature = 1\<rparr>"

definition apt_example :: "16 apt_data" where
  \<comment> \<open>the test after \<open>apt_initialize\<close> and six bytes 7: the first byte of the window
      has come back five times\<close>
  "apt_example =
     \<lparr>apt_isInitialized = True, apt_firstSample = 7, apt_curRepetitions = 5,
      apt_curSamples = 5, apt_windowSize = 64, apt_cutoffValue = 5,
      apt_cycleFailures = 0, apt_statusByte = 0, apt_signature = 2\<rparr>"

definition two_bytes_stripped :: "nat \<Rightarrow> u8 list \<Rightarrow> u8 list" where
  \<comment> \<open>the bytes of a transfer but the first two of every packet of \<open>sz\<close> bytes\<close>
  "two_bytes_stripped sz bs =
     map (nth bs) (filter (\<lambda>j. j mod sz \<noteq> 0 \<and> j mod sz \<noteq> 1) [0..<length bs])"

definition one_byte_stripped :: "nat \<Rightarrow> u8 list \<Rightarrow> u8 list" where
  \<comment> \<open>the spec's words: one framing byte is stripped at every offset that is a
      multiple of the packet size\<close>
  "one_byte_stripped sz bs = map (nth bs) (filter (\<lambda>j. j mod sz \<noteq> 0) [0..<length bs])"

fun stamp_all :: "hdr \<Rightarrow> u32 list list \<Rightarrow> u32 \<Rightarrow> u32 list list \<times> u32" where
  \<comment> \<open>the hash inputs of a run of sub-blocks, refill after refill: each input block is
      stamped in its turn by \<^verbatim>\<open>sha256_stampSerialNumber\<close>, with the counter it left\<close>
  "stamp_all h [] sn = ([], sn)"
| "stamp_all h (b # bs) sn =
     (case sha256_stampSerialNumber h b sn of
        (b1, sn1) \<Rightarrow> (case stamp_all h bs sn1 of (bs1, sn2) \<Rightarrow> (b1 # bs1, sn2)))"

definition raw_block :: "hdr \<Rightarrow> u8 list \<Rightarrow> nat \<Rightarrow> u32 list" where
  \<comment> \<open>the words of sub-block \<open>q\<close> of a raw block, as the inner \<^verbatim>\<open>for\<close> loop of
      \<^verbatim>\<open>rcv_rnd_bytes\<close> copies them with \<open>i = MIN_INPUT_NUM_WORDS * q\<close>\<close>
  "raw_block h buf q = map (\<lambda>j. load_word buf (MIN_INPUT_NUM_WORDS h * q + j)) [0..<MIN_INPUT_NUM_WORDS h]"

definition hash_inputs :: "hdr \<Rightarrow> 'w::len drv \<Rightarrow> u32 list list" where
  \<comment> \<open>the reference for one refill: the sub-blocks of \<^verbatim>\<open>buffRndIn\<close>, each with one more
      word for the serial number, stamped in their order from the counter of \<open>s\<close>\<close>
  "hash_inputs h s =
     fst (stamp_all h
            (map (\<lambda>q. raw_block h (buffRndIn s) q @ [0])
               [0..<RND_IN_BUFFSIZE h div WORD_SIZE_BYTES h div MIN_INPUT_NUM_WORDS h])
            (blockSerialNumber s))"

definition drv_example :: "16 drv" where
  \<comment> \<open>the device is connected, the output block is used up, and the device will answer
      one command with two framing bytes, forty zero bytes and the status byte 0\<close>
  "drv_example =
     \<lparr>isEntropySrcRdy = True, isShutDown = False, isDeviceOpPending = False,
      isUsbOpPending = False, curTrngOutIdx = 32, buffRndIn = replicate 41 0,
      buffTRndOut = replicate 32 170, srcToHash = replicate 11 0, blockSerialNumber = 413145,
      rct = rct_initialize, apt = apt_initialize, bulk_in_size = 64,
      bulk_out_buffer = replicate 64 0, usb_out = [(0, 3)],
      usb_in = [(0, [1, 96] @ replicate 40 0 @ [0], 0)], clock = 0\<rparr>"

definition drv_latched :: "16 drv" where
  \<comment> \<open>as \<open>drv_example\<close>, with the repetition count test latched by an earlier block\<close>
  "drv_latched = drv_example\<lparr>rct := rct_initialize\<lparr>rct_statusByte := 1\<rparr>\<rparr>"

definition drv_exchanged :: "16 drv" where
  \<comment> \<open>within a read, after the exchange: the command \<^verbatim>\<open>'x', 40, 0\<close> is written, the answer is in
      \<^verbatim>\<open>buffRndIn\<close>, the device has nothing more to say\<close>
  "drv_exchanged =
     drv_latched\<lparr>isDeviceOpPending := True, isUsbOpPending := True, bulk_out_buffer := [120, 40] @ replicate 62 0,
       usb_out := [], usb_in := []\<rparr>"

definition drv_refilled :: "16 drv" where
  \<comment> \<open>the state \<^verbatim>\<open>rcv_rnd_bytes\<close> leaves from \<open>drv_latched\<close>: the block is the SHA-256
      digest of forty zero bytes and the serial number 413145\<close>
  "drv_refilled =
     \<lparr>isEntropySrcRdy = True, isShutDown = False, isDeviceOpPending = False,
      isUsbOpPending = False, curTrngOutIdx = 0, buffRndIn = replicate 41 0,
      buffTRndOut =
        [200, 72, 179, 195, 69, 9, 36, 130, 209, 236, 171, 164, 63, 255, 112, 29,
         253, 178, 243, 104, 98, 200, 39, 91, 189, 157, 88, 40, 48, 21, 3, 23],
      srcToHash = replicate 10 0 @ [413145], blockSerialNumber = 413146,
      rct = \<lparr>rct_isInitialized = True, rct_lastSample = 23, rct_curRepetitions = 1,
             rct_maxRepetitions = 5, rct_failureWindow = 0, rct_failureCount = 0,
             rct_statusByte = 1, rct_signature = 1\<rparr>,
      apt = \<lparr>apt_isInitialized = True, apt_firstSample = 200, apt_curRepetitions = 1,
             apt_curSamples = 31, apt_windowSize = 64, apt_cutoffValue = 5,
             apt_cycleFailures = 0, apt_statusByte = 0, apt_signature = 2\<rparr>,
      bulk_in_size = 64, bulk_out_buffer = [120, 40] @ replicate 62 0,
      usb_out = [], usb_in = [], clock = 0\<rparr>"

definition drv_retry :: "16 drv" where
  \<comment> \<open>as \<open>drv_example\<close>, with a device that takes two commands and answers the first
      with forty bytes 7 and the status byte 5, the second with forty bytes 9 and the
      status byte 0\<close>
  "drv_retry =
     drv_example\<lparr>usb_out := [(0, 3), (0, 3)],
       usb_in := [(0, [1, 96] @ replicate 40 7 @ [5], 0),
                  (0, [1, 96] @ replicate 40 9 @ [0], 0)]\<rparr>"

definition hdr_two :: hdr where
  \<comment> \<open>as \<open>hdr_example\<close>, with two sub-blocks of ten words per raw block\<close>
  "hdr_two = hdr_example\<lparr>RND_IN_BUFFSIZE := 80, TRND_OUT_BUFFSIZE := 64\<rparr>"

definition drv_two :: "16 drv" where
  \<comment> \<open>as \<open>drv_example\<close>, with the buffers of \<open>hdr_two\<close>\<close>
  "drv_two = drv_example\<lparr>buffRndIn := replicate 81 0, buffTRndOut := replicate 64 170\<rparr>"

definition hdr_tail_wrong :: hdr where
  \<comment> \<open>as \<open>hdr_example\<close>, but of the expected hash only the first two words (eight
      bytes) are those of the digest of the test sequence\<close>
  "hdr_tail_wrong = hdr_example\<lparr>exptHashSeq1 := [3283306696, 2183399749, 0, 0, 0, 0, 0, 0]\<rparr>"

definition init_env_example :: init_env where
  \<comment> \<open>every registration and allocation succeeds\<close>
  "init_env_example =
     \<lparr>init_char_dev_result = 0, buffRndIn_allocated = True, buffTRndOut_allocated = True,
      usb_register_result = 0\<rparr>"

section \<open>The health tests, sample by sample\<close>

lemma rct_example_reached:
  "rct_run hdr_example rct_initialize (replicate 20 7) = rct_example"
  by code_simp

lemma apt_example_reached:
  "apt_run hdr_example apt_initialize (replicate 6 7) = apt_example"
  by code_simp

text \<open>
  C6. \<^verbatim>\<open>rct_sample\<close>, case by case, each with the whole state it leaves. The first
  sample after \<open>rct_restart\<close> or \<open>rct_initialize\<close> (the test is not initialised) is
  recorded as \<open>lastSample\<close> and initialises the test. For every sample after the
  first: a sample equal to \<open>lastSample\<close> increments \<open>curRepetitions\<close>; when the
  incremented counter reaches \<open>maxRepetitions\<close> it is set back to 1 and \<open>failureCount\<close>
  is incremented, and \<open>statusByte\<close> takes the signature when the incremented
  \<open>failureCount\<close> reaches the threshold and \<open>statusByte\<close> is still 0; a sample that
  differs becomes \<open>lastSample\<close> and \<open>curRepetitions\<close> is 1, with \<open>failureCount\<close> and
  \<open>statusByte\<close> as they were. \<open>rct_restart\<close> clears the flag and the counters and
  keeps \<open>statusByte\<close>; \<open>rct_initialize\<close> sets \<open>maxRepetitions\<close> to 5.
\<close>

theorem rct_sample_after_first:
  "(\<not> rct_isInitialized r \<longrightarrow>
      rct_sample h v r = r\<lparr>rct_isInitialized := True, rct_lastSample := v\<rparr>)
   \<and> (rct_isInitialized r \<and> rct_lastSample r = v
        \<and> unat (rct_curRepetitions r + 1) < unat (rct_maxRepetitions r) \<longrightarrow>
        rct_sample h v r = r\<lparr>rct_curRepetitions := rct_curRepetitions r + 1\<rparr>)
   \<and> (rct_isInitialized r \<and> rct_lastSample r = v
        \<and> unat (rct_maxRepetitions r) \<le> unat (rct_curRepetitions r + 1) \<longrightarrow>
        rct_sample h v r =
          r\<lparr>rct_curRepetitions := 1, rct_failureCount := rct_failureCount r + 1,
            rct_statusByte :=
              (if numConsecFailThreshold h \<le> unat (rct_failureCount r + 1) \<and> rct_statusByte r = 0
               then rct_signature r else rct_statusByte r)\<rparr>)
   \<and> (rct_isInitialized r \<and> rct_lastSample r \<noteq> v \<longrightarrow>
        rct_sample h v r = r\<lparr>rct_lastSample := v, rct_curRepetitions := 1\<rparr>)
   \<and> rct_restart r
       = r\<lparr>rct_isInitialized := False, rct_curRepetitions := 1, rct_failureWindow := 0,
           rct_failureCount := 0\<rparr>
   \<and> (rct_initialize :: 'w::len rct_data)
       = \<lparr>rct_isInitialized = False, rct_lastSample = 0, rct_curRepetitions = 1,
          rct_maxRepetitions = 5, rct_failureWindow = 0, rct_failureCount = 0,
          rct_statusByte = 0, rct_signature = 1\<rparr>"
  for r :: "'w::len rct_data"
  by (simp add: rct_sample_def rct_initialize_def rct_restart_def Let_def)

theorem rct_sample_after_first_witness:
  "rct_run hdr_example (rct_initialize :: 16 rct_data) (replicate 20 7) = rct_example
   \<and> rct_sample hdr_example 7 (rct_initialize :: 16 rct_data)
       = (rct_initialize :: 16 rct_data)\<lparr>rct_isInitialized := True, rct_lastSample := 7\<rparr>
   \<and> rct_sample hdr_example 7 (rct_sample hdr_example 7 (rct_initialize :: 16 rct_data))
       = (rct_sample hdr_example 7 (rct_initialize :: 16 rct_data))\<lparr>rct_curRepetitions := 2\<rparr>
   \<and> rct_sample hdr_example 7 rct_example
       = rct_example\<lparr>rct_curRepetitions := 1, rct_failureCount := 5, rct_statusByte := 1\<rparr>
   \<and> rct_sample hdr_example 9 rct_example
       = rct_example\<lparr>rct_lastSample := 9, rct_curRepetitions := 1\<rparr>
   \<and> rct_statusByte (rct_run hdr_example (rct_initialize :: 16 rct_data) (replicate 21 7)) = 1
   \<and> rct_statusByte (rct_restart (rct_run hdr_example (rct_initialize :: 16 rct_data) (replicate 21 7))) = 1"
proof -
  note th = rct_sample_after_first [where h = hdr_example]
  have i: "(rct_initialize :: 16 rct_data)
             = \<lparr>rct_isInitialized = False, rct_lastSample = 0, rct_curRepetitions = 1,
                rct_maxRepetitions = 5, rct_failureWindow = 0, rct_failureCount = 0,
                rct_statusByte = 0, rct_signature = 1\<rparr>"
    using th [of "rct_initialize :: 16 rct_data" 7] by simp
  have c1: "rct_sample hdr_example 7 rct_initialize
              = (rct_initialize :: 16 rct_data)\<lparr>rct_isInitialized := True, rct_lastSample := 7\<rparr>"
    using th [of "rct_initialize :: 16 rct_data" 7] by (simp add: i)
  have c2: "rct_sample hdr_example 7 (rct_sample hdr_example 7 rct_initialize)
              = (rct_sample hdr_example 7 (rct_initialize :: 16 rct_data))\<lparr>rct_curRepetitions := 2\<rparr>"
    using th [of "rct_sample hdr_example 7 (rct_initialize :: 16 rct_data)" 7]
    by (simp add: c1) (simp add: i)
  have c3: "rct_sample hdr_example 7 rct_example
              = rct_example\<lparr>rct_curRepetitions := 1, rct_failureCount := 5, rct_statusByte := 1\<rparr>"
    using th [of rct_example 7] by (simp add: rct_example_def hdr_example_def)
  have c4: "rct_sample hdr_example 9 rct_example
              = rct_example\<lparr>rct_lastSample := 9, rct_curRepetitions := 1\<rparr>"
    using th [of rct_example 9] by (simp add: rct_example_def)
  have c5: "rct_run hdr_example (rct_initialize :: 16 rct_data) (replicate 21 7)
              = rct_example\<lparr>rct_curRepetitions := 1, rct_failureCount := 5, rct_statusByte := 1\<rparr>"
    by code_simp
  have c6: "rct_statusByte (rct_restart (rct_run hdr_example (rct_initialize :: 16 rct_data) (replicate 21 7))) = 1"
    by (simp add: c5 rct_example_def)
  from rct_example_reached c1 c2 c3 c4 c5 c6 show ?thesis by simp
qed

text \<open>
  C3, as stated, fails: six bytes 7 after \<open>apt_initialize\<close> leave \<open>curRepetitions\<close> at
  5, the \<open>cutoffValue\<close>. The next 7 takes it to 6: \<open>cycleFailures\<close> is incremented and
  the repetition counter is not set back, and the 7 after that takes it to 7.
\<close>

theorem apt_sample_counter_not_reset:
  "apt_run hdr_example apt_initialize (replicate 6 7) = apt_example
   \<and> apt_firstSample apt_example = 7
   \<and> apt_cutoffValue apt_example = 5 \<and> apt_curRepetitions apt_example = 5
   \<and> apt_curRepetitions (apt_sample hdr_example 7 apt_example) = 6
   \<and> apt_cycleFailures (apt_sample hdr_example 7 apt_example) = 1
   \<and> apt_curRepetitions (apt_sample hdr_example 7 (apt_sample hdr_example 7 apt_example)) = 7
   \<and> apt_cycleFailures (apt_sample hdr_example 7 (apt_sample hdr_example 7 apt_example)) = 2"
  using apt_example_reached
  by (simp add: apt_sample_def apt_example_def hdr_example_def Let_def)

text \<open>
  C3, amended. \<^verbatim>\<open>apt_sample\<close>, case by case, each with the whole state it leaves. The
  first sample of a window (the test is not initialised: after \<open>apt_initialize\<close>,
  after \<open>apt_restart\<close>, after the end of a window) becomes \<open>firstSample\<close>, starts the
  window and sets \<open>curRepetitions\<close> and \<open>curSamples\<close> to 0. Every later sample of the
  window increments \<open>curSamples\<close>, and the window ends when that reaches
  \<open>windowSize\<close>; \<open>firstSample\<close> is kept. A sample equal to \<open>firstSample\<close> increments
  \<open>curRepetitions\<close>, which is never set back within the window: when the incremented
  \<open>curRepetitions\<close> exceeds \<open>cutoffValue\<close>, \<open>cycleFailures\<close> is incremented, and
  \<open>statusByte\<close> takes the signature when the incremented \<open>cycleFailures\<close> reaches the
  threshold and \<open>statusByte\<close> is still 0; when it does not exceed \<open>cutoffValue\<close>,
  \<open>cycleFailures\<close> is set to 0. A sample that differs from \<open>firstSample\<close> changes
  neither counter nor \<open>statusByte\<close>. \<open>apt_restart\<close> ends the window and clears
  \<open>cycleFailures\<close>, and keeps \<open>statusByte\<close>; \<open>apt_initialize\<close> sets \<open>cutoffValue\<close> to 5
  and \<open>windowSize\<close> to 64.
\<close>

theorem apt_sample_after_first:
  "(\<not> apt_isInitialized a \<longrightarrow>
      apt_sample h v a
        = a\<lparr>apt_isInitialized := True, apt_firstSample := v, apt_curRepetitions := 0,
            apt_curSamples := 0\<rparr>)
   \<and> (apt_isInitialized a \<and> apt_firstSample a \<noteq> v \<longrightarrow>
        apt_sample h v a
          = a\<lparr>apt_isInitialized := unat (apt_curSamples a + 1) < unat (apt_windowSize a),
              apt_curSamples := apt_curSamples a + 1\<rparr>)
   \<and> (apt_isInitialized a \<and> apt_firstSample a = v
        \<and> unat (apt_curRepetitions a + 1) \<le> unat (apt_cutoffValue a) \<longrightarrow>
        apt_sample h v a
          = a\<lparr>apt_isInitialized := unat (apt_curSamples a + 1) < unat (apt_windowSize a),
              apt_curSamples := apt_curSamples a + 1,
              apt_curRepetitions := apt_curRepetitions a + 1, apt_cycleFailures := 0\<rparr>)
   \<and> (apt_isInitialized a \<and> apt_firstSample a = v
        \<and> unat (apt_cutoffValue a) < unat (apt_curRepetitions a + 1) \<longrightarrow>
        apt_sample h v a
          = a\<lparr>apt_isInitialized := unat (apt_curSamples a + 1) < unat (apt_windowSize a),
              apt_curSamples := apt_curSamples a + 1,
              apt_curRepetitions := apt_curRepetitions a + 1,
              apt_cycleFailures := apt_cycleFailures a + 1,
              apt_statusByte :=
                (if numConsecFailThreshold h \<le> unat (apt_cycleFailures a + 1) \<and> apt_statusByte a = 0
                 then apt_signature a else apt_statusByte a)\<rparr>)
   \<and> apt_restart a = a\<lparr>apt_isInitialized := False, apt_cycleFailures := 0\<rparr>
   \<and> (apt_initialize :: 'w::len apt_data)
       = \<lparr>apt_isInitialized = False, apt_firstSample = 0, apt_curRepetitions = 0,
          apt_curSamples = 0, apt_windowSize = 64, apt_cutoffValue = 5,
          apt_cycleFailures = 0, apt_statusByte = 0, apt_signature = 2\<rparr>"
  for a :: "'w::len apt_data"
  by (cases a)
     (simp add: apt_sample_def apt_initialize_def apt_restart_def apt_restart_cycle_def Let_def)

theorem apt_sample_after_first_witness:
  "apt_run hdr_example (apt_initialize :: 16 apt_data) (replicate 6 7) = apt_example
   \<and> apt_sample hdr_example 7 (apt_initialize :: 16 apt_data)
       = (apt_initialize :: 16 apt_data)\<lparr>apt_isInitialized := True, apt_firstSample := 7\<rparr>
   \<and> apt_sample hdr_example 7 (apt_sample hdr_example 7 (apt_initialize :: 16 apt_data))
       = (apt_sample hdr_example 7 (apt_initialize :: 16 apt_data))\<lparr>apt_curSamples := 1, apt_curRepetitions := 1\<rparr>
   \<and> apt_sample hdr_example 7 apt_example
       = apt_example\<lparr>apt_curSamples := 6, apt_curRepetitions := 6, apt_cycleFailures := 1\<rparr>
   \<and> apt_sample hdr_example 9 apt_example = apt_example\<lparr>apt_curSamples := 6\<rparr>
   \<and> apt_run hdr_example (apt_initialize :: 16 apt_data) (replicate 10 7)
       = apt_example\<lparr>apt_curSamples := 9, apt_curRepetitions := 9, apt_cycleFailures := 4\<rparr>
   \<and> apt_sample hdr_example 7 (apt_run hdr_example (apt_initialize :: 16 apt_data) (replicate 10 7))
       = apt_example\<lparr>apt_curSamples := 10, apt_curRepetitions := 10, apt_cycleFailures := 5,
           apt_statusByte := 2\<rparr>
   \<and> apt_statusByte
         (apt_restart (apt_sample hdr_example 7 (apt_run hdr_example (apt_initialize :: 16 apt_data) (replicate 10 7))))
       = 2"
proof -
  note th = apt_sample_after_first [where h = hdr_example]
  have i: "(apt_initialize :: 16 apt_data)
             = \<lparr>apt_isInitialized = False, apt_firstSample = 0, apt_curRepetitions = 0,
                apt_curSamples = 0, apt_windowSize = 64, apt_cutoffValue = 5,
                apt_cycleFailures = 0, apt_statusByte = 0, apt_signature = 2\<rparr>"
    using th [of "apt_initialize :: 16 apt_data" 7] by simp
  have c1: "apt_sample hdr_example 7 apt_initialize
              = (apt_initialize :: 16 apt_data)\<lparr>apt_isInitialized := True, apt_firstSample := 7\<rparr>"
    using th [of "apt_initialize :: 16 apt_data" 7] by (simp add: i)
  have c2: "apt_sample hdr_example 7 (apt_sample hdr_example 7 apt_initialize)
              = (apt_sample hdr_example 7 (apt_initialize :: 16 apt_data))
                  \<lparr>apt_curSamples := 1, apt_curRepetitions := 1\<rparr>"
    using th [of "apt_sample hdr_example 7 (apt_initialize :: 16 apt_data)" 7]
    by (simp add: c1) (simp add: i)
  have c3: "apt_sample hdr_example 7 apt_example
              = apt_example\<lparr>apt_curSamples := 6, apt_curRepetitions := 6, apt_cycleFailures := 1\<rparr>"
    using th [of apt_example 7] by (simp add: apt_example_def hdr_example_def)
  have c4: "apt_sample hdr_example 9 apt_example = apt_example\<lparr>apt_curSamples := 6\<rparr>"
    using th [of apt_example 9] by (simp add: apt_example_def)
  have c5: "apt_run hdr_example (apt_initialize :: 16 apt_data) (replicate 10 7)
             = apt_example\<lparr>apt_curSamples := 9, apt_curRepetitions := 9, apt_cycleFailures := 4\<rparr>"
    by code_simp
  have c6: "apt_sample hdr_example 7 (apt_run hdr_example (apt_initialize :: 16 apt_data) (replicate 10 7))
       = apt_example\<lparr>apt_curSamples := 10, apt_curRepetitions := 10, apt_cycleFailures := 5,
           apt_statusByte := 2\<rparr>"
    using th [of "apt_example\<lparr>apt_curSamples := 9, apt_curRepetitions := 9, apt_cycleFailures := 4\<rparr>" 7]
    by (simp add: c5) (simp add: apt_example_def hdr_example_def)
  have c7: "apt_statusByte
         (apt_restart (apt_sample hdr_example 7 (apt_run hdr_example (apt_initialize :: 16 apt_data) (replicate 10 7))))
       = 2"
    by (simp add: c6 apt_example_def)
  from apt_example_reached c1 c2 c3 c4 c5 c6 c7 show ?thesis by simp
qed

section \<open>De-framing of inbound transfers\<close>

lemma chip_extract_from:
  "0 < sz \<Longrightarrow> cnt < len \<Longrightarrow> i mod sz \<noteq> 1 \<Longrightarrow>
     chip_extract sz len bs i buff cnt =
       (let p = take (len - cnt)
                  (map (nth bs) (filter (\<lambda>j. j mod sz \<noteq> 0 \<and> j mod sz \<noteq> 1) [i..<length bs]))
        in (write_at buff cnt p, cnt + length p))"
proof (induction sz len bs i buff cnt rule: chip_extract.induct)
  case (1 sz len bs i buff cnt)
  let ?P = "\<lambda>j. j mod sz \<noteq> 0 \<and> j mod sz \<noteq> 1"
  show ?case
  proof (cases "i < length bs")
    case False
    then show ?thesis by (subst chip_extract.simps) simp
  next
    case True
    show ?thesis
    proof (cases "i mod sz = 0")
      case z: True
      have two: "(i + 2) mod sz \<noteq> 1"
      proof -
        have "(i + 2) mod sz = 2 mod sz" using z by (metis mod_add_left_eq add_0)
        moreover have "2 mod sz \<noteq> 1"
          using \<open>0 < sz\<close> by (cases "sz = 1"; cases "sz = 2") auto
        ultimately show ?thesis by simp
      qed
      have nxt: "\<not> ?P (Suc i)"
        using z \<open>0 < sz\<close> by (auto simp: mod_Suc)
      have "filter ?P [i..<length bs] = filter ?P [i + 2..<length bs]"
      proof (cases "Suc i < length bs")
        case True
        then have "[i..<length bs] = i # Suc i # [i + 2..<length bs]"
          by (simp add: upt_conv_Cons)
        with z nxt show ?thesis by simp
      next
        case False
        with \<open>i < length bs\<close> have "length bs = Suc i" by simp
        with z show ?thesis by simp
      qed
      with "1.IH"(1)[OF True z "1.prems"(1,2) two] True z show ?thesis
        by (subst chip_extract.simps) simp
    next
      case nz: False
      with "1.prems" have P: "?P i" by simp
      have up: "[i..<length bs] = i # [Suc i..<length bs]"
        using True by (simp add: upt_conv_Cons)
      have nxt: "(i + 1) mod sz \<noteq> 1"
        using nz \<open>0 < sz\<close> by (auto simp: mod_Suc)
      show ?thesis
      proof (cases "len \<le> cnt + 1")
        case last: True
        with \<open>cnt < len\<close> have "len - cnt = 1" by simp
        with True nz last P up show ?thesis
          by (subst chip_extract.simps) (simp add: Let_def)
      next
        case more: False
        then have c: "cnt + 1 < len" by simp
        have t: "len - cnt = Suc (len - (cnt + 1))" using c by simp
        from "1.IH"(2)[OF True nz refl refl more "1.prems"(1) c nxt] True nz more P up
        show ?thesis
          by (subst chip_extract.simps) (simp add: Let_def t del: upt_Suc)
      qed
    qed
  qed
qed

text \<open>
  C10, as stated, fails: from a transfer of four bytes in packets of 64 the bytes at
  the offsets 2 and 3 are appended. The byte at offset 1, which is no multiple of the
  packet size, is stripped together with the byte at offset 0.
\<close>

theorem chip_take_strips_two:
  "chip_take 64 41 [1, 2, 3, 4] [0, 0, 0, 0] 0 = ([3, 4, 0, 0], 2)
   \<and> write_at [0, 0, 0, 0] 0 (one_byte_stripped 64 [1, 2, 3, 4]) = [2, 3, 4, 0]"
  by (simp add: chip_take_def chip_extract.simps one_byte_stripped_def upt_rec)

text \<open>
  C10, amended. In \<^verbatim>\<open>chip_read_data\<close>, with a positive bulk-in packet size and the
  response not yet complete: an inbound transfer of 2 bytes or fewer appends nothing
  to the response; a transfer of 3 bytes or more appends, in order and until
  \<open>len\<close> bytes are there, its bytes but the two at the start of every packet: the
  byte at every offset that is a multiple of the packet size and the byte after it.
\<close>

theorem chip_take_payload:
  "0 < sz \<Longrightarrow> cnt < len \<Longrightarrow>
     chip_take sz len bs buff cnt =
       (if length bs \<le> 2 then (buff, cnt)
        else (write_at buff cnt (take (len - cnt) (two_bytes_stripped sz bs)),
              cnt + length (take (len - cnt) (two_bytes_stripped sz bs))))"
  using chip_extract_from [of sz cnt len 0 bs buff]
  by (auto simp: chip_take_def two_bytes_stripped_def Let_def)

theorem chip_take_payload_witness:
  "(0::nat) < 4 \<and> (0::nat) < 41
   \<and> chip_take 4 41 [1, 2] [0, 0, 0, 0] 0 = ([0, 0, 0, 0], 0)
   \<and> chip_take 4 41 [1, 2, 3, 4, 5, 6, 7] [0, 0, 0, 0] 0 = ([3, 4, 7, 0], 3)"
  using chip_take_payload [of 4 0 41 "[1, 2]" "[0, 0, 0, 0]"]
        chip_take_payload [of 4 0 41 "[1, 2, 3, 4, 5, 6, 7]" "[0, 0, 0, 0]"]
  by (simp add: two_bytes_stripped_def upt_rec)

section \<open>The exchange and its status byte\<close>

lemma snd_rcv_loop_returned:
  "snd_rcv_loop h sizeSnd sizeRcv t left retval s rcv = (Returned, r, rcv1, s1) \<Longrightarrow> isShutDown s"
proof (induction left arbitrary: retval s rcv)
  case 0
  then show ?case by simp
next
  case (Suc left)
  show ?case
  proof (rule ccontr)
    assume ns: "\<not> isShutDown s"
    obtain r1 n sa where u: "usb_bulk_msg_out s = (r1, n, sa)"
      by (cases "usb_bulk_msg_out s") auto
    obtain r2 rcv2 sb where c: "chip_read_data h sa rcv (sizeRcv + 1) t = (r2, rcv2, sb)"
      by (cases "chip_read_data h sa rcv (sizeRcv + 1) t") auto
    have sa: "isShutDown sa = isShutDown s"
      using usb_bulk_msg_out_frame[OF u] same_globals_fields by blast
    have sb: "isShutDown sb = isShutDown s"
      using chip_read_data_frame[OF c] same_globals_fields sa by metis
    from Suc.prems ns u c have
      "(\<exists>rv. snd_rcv_loop h sizeSnd sizeRcv t left rv sb rcv2 = (Returned, r, rcv1, s1))
       \<or> (\<exists>rv. snd_rcv_loop h sizeSnd sizeRcv t left rv sa rcv = (Returned, r, rcv1, s1))"
      by (auto split: if_splits)
    with Suc.IH sa sb ns show False by blast
  qed
qed

lemma chip_read_loop_hdr:
  "USB_BUFFER_SIZE h' = USB_BUFFER_SIZE h \<Longrightarrow>
     chip_read_loop h' len t start s buff cnt = chip_read_loop h len t start s buff cnt"
proof (induction h len t start s buff cnt rule: chip_read_loop.induct)
  case (1 h len t start s buff cnt)
  show ?case
  proof (cases "isShutDown s")
    case True
    have a: "chip_read_loop h' len t start s buff cnt = (Some (- EPERM), buff, cnt, s)"
      using True by (subst chip_read_loop.simps) simp
    have b: "chip_read_loop h len t start s buff cnt = (Some (- EPERM), buff, cnt, s)"
      using True by (subst chip_read_loop.simps) simp
    show ?thesis by (simp only: a b)
  next
    case False
    obtain rv bs sa where u: "usb_bulk_msg_in s = (rv, bs, sa)"
      by (cases "usb_bulk_msg_in s") auto
    obtain b2 c2 where ct: "chip_take (bulk_in_size sa) len bs buff cnt = (b2, c2)"
      by (cases "chip_take (bulk_in_size sa) len bs buff cnt") auto
    show ?thesis
    proof (cases "rv = 0 \<and> \<not> USB_BUFFER_SIZE h < length bs \<and> c2 < len \<and> clock sa - start < t")
      case True
      from "1.IH"[OF False u[symmetric] refl _ _ refl ct[symmetric] _ "1.prems"] True
      have ih: "chip_read_loop h' len t start sa b2 c2 = chip_read_loop h len t start sa b2 c2"
        by auto
      have a: "chip_read_loop h' len t start s buff cnt = chip_read_loop h' len t start sa b2 c2"
        using True False u ct "1.prems" by (subst chip_read_loop.simps) simp
      have b: "chip_read_loop h len t start s buff cnt = chip_read_loop h len t start sa b2 c2"
        using True False u ct by (subst chip_read_loop.simps) simp
      show ?thesis by (simp only: a b ih)
    next
      case F: False
      have a: "chip_read_loop h' len t start s buff cnt =
          (if rv \<noteq> 0 then (Some rv, buff, cnt, sa)
           else if USB_BUFFER_SIZE h < length bs then (Some (- EFAULT), buff, cnt, sa)
           else (None, b2, c2, sa))"
        using F False u ct "1.prems" by (subst chip_read_loop.simps) auto
      have b: "chip_read_loop h len t start s buff cnt =
          (if rv \<noteq> 0 then (Some rv, buff, cnt, sa)
           else if USB_BUFFER_SIZE h < length bs then (Some (- EFAULT), buff, cnt, sa)
           else (None, b2, c2, sa))"
        using F False u ct by (subst chip_read_loop.simps) auto
      show ?thesis by (simp only: a b)
    qed
  qed
qed

lemma chip_read_data_hdr:
  "USB_BUFFER_SIZE h' = USB_BUFFER_SIZE h \<Longrightarrow>
     chip_read_data h' s buff len t = chip_read_data h s buff len t"
  by (simp only: chip_read_data_def chip_read_loop_hdr [of h' h])

lemma snd_rcv_loop_hdr:
  "USB_BUFFER_SIZE h' = USB_BUFFER_SIZE h \<Longrightarrow>
     snd_rcv_loop h' sizeSnd sizeRcv t left retval s rcv
       = snd_rcv_loop h sizeSnd sizeRcv t left retval s rcv"
proof (induction left arbitrary: retval s rcv)
  case 0
  show ?case by simp
next
  case (Suc left)
  show ?case
    by (simp only: snd_rcv_loop.simps Suc.IH [OF Suc.prems] chip_read_data_hdr [OF Suc.prems])
qed

lemma snd_rcv_usb_data_budget:
  "snd_rcv_usb_data (h\<lparr>USB_READ_MAX_RETRY_CNT := n\<rparr>) s sizeSnd rcv sizeRcv t =
     (case snd_rcv_loop h sizeSnd sizeRcv t n retval s rcv of
        (Exhausted, rv, rcv1, s1) \<Rightarrow> (- ETIMEDOUT, rcv1, s1)
      | (ex, rv, rcv1, s1) \<Rightarrow> (rv, rcv1, s1))"
proof -
  have a: "snd_rcv_loop (h\<lparr>USB_READ_MAX_RETRY_CNT := n\<rparr>) sizeSnd sizeRcv t n SUCCESS s rcv
             = snd_rcv_loop h sizeSnd sizeRcv t n SUCCESS s rcv"
    by (rule snd_rcv_loop_hdr) simp
  have b: "(case snd_rcv_loop h sizeSnd sizeRcv t n SUCCESS s rcv of
        (Exhausted, rv, rcv1, s1) \<Rightarrow> (- ETIMEDOUT, rcv1, s1)
      | (ex, rv, rcv1, s1) \<Rightarrow> (rv, rcv1, s1))
      = (case snd_rcv_loop h sizeSnd sizeRcv t n retval s rcv of
        (Exhausted, rv, rcv1, s1) \<Rightarrow> (- ETIMEDOUT, rcv1, s1)
      | (ex, rv, rcv1, s1) \<Rightarrow> (rv, rcv1, s1))"
    by (cases n) simp_all
  show ?thesis by (simp add: snd_rcv_usb_data_def a b)
qed

lemma snd_rcv_usb_data_zero:
  "snd_rcv_usb_data (h\<lparr>USB_READ_MAX_RETRY_CNT := 0\<rparr>) s sizeSnd rcv sizeRcv t = (- ETIMEDOUT, rcv, s)"
  by (simp add: snd_rcv_usb_data_def)

lemma snd_rcv_usb_data_Suc:
  "snd_rcv_usb_data (h\<lparr>USB_READ_MAX_RETRY_CNT := Suc n\<rparr>) s sizeSnd rcv sizeRcv t =
     (if isShutDown s then (- EPERM, rcv, s)
      else
        (case usb_bulk_msg_out s of
           (r1, actualcCnt, s1) \<Rightarrow>
             if r1 = SUCCESS \<and> actualcCnt = sizeSnd then
               (case chip_read_data h s1 rcv (sizeRcv + 1) t of
                  (r2, rcv2, s2) \<Rightarrow>
                    if r2 = SUCCESS \<and> rcv2 ! sizeRcv = 0 then (SUCCESS, rcv2, s2)
                    else snd_rcv_usb_data (h\<lparr>USB_READ_MAX_RETRY_CNT := n\<rparr>) s2 sizeSnd rcv2 sizeRcv t)
             else snd_rcv_usb_data (h\<lparr>USB_READ_MAX_RETRY_CNT := n\<rparr>) s1 sizeSnd rcv sizeRcv t))"
proof (cases "isShutDown s")
  case True
  then show ?thesis
    by (simp add: snd_rcv_usb_data_budget [where retval = SUCCESS and n = "Suc n"])
next
  case False
  obtain r1 c sa where u: "usb_bulk_msg_out s = (r1, c, sa)"
    by (cases "usb_bulk_msg_out s") auto
  obtain r2 rcv2 sb where d: "chip_read_data h sa rcv (sizeRcv + 1) t = (r2, rcv2, sb)"
    by (cases "chip_read_data h sa rcv (sizeRcv + 1) t") auto
  have e1: "snd_rcv_usb_data (h\<lparr>USB_READ_MAX_RETRY_CNT := n\<rparr>) sa sizeSnd rcv sizeRcv t =
     (case snd_rcv_loop h sizeSnd sizeRcv t n r1 sa rcv of
        (Exhausted, rv, rcv1, s1) \<Rightarrow> (- ETIMEDOUT, rcv1, s1)
      | (ex, rv, rcv1, s1) \<Rightarrow> (rv, rcv1, s1))"
    by (rule snd_rcv_usb_data_budget)
  have e2: "snd_rcv_usb_data (h\<lparr>USB_READ_MAX_RETRY_CNT := n\<rparr>) sb sizeSnd rcv2 sizeRcv t =
     (case snd_rcv_loop h sizeSnd sizeRcv t n r2 sb rcv2 of
        (Exhausted, rv, rcv1, s1) \<Rightarrow> (- ETIMEDOUT, rcv1, s1)
      | (ex, rv, rcv1, s1) \<Rightarrow> (rv, rcv1, s1))"
    by (rule snd_rcv_usb_data_budget)
  have e3: "snd_rcv_usb_data (h\<lparr>USB_READ_MAX_RETRY_CNT := n\<rparr>) sb sizeSnd rcv2 sizeRcv t =
     (case snd_rcv_loop h sizeSnd sizeRcv t n (- EFAULT) sb rcv2 of
        (Exhausted, rv, rcv1, s1) \<Rightarrow> (- ETIMEDOUT, rcv1, s1)
      | (ex, rv, rcv1, s1) \<Rightarrow> (rv, rcv1, s1))"
    by (rule snd_rcv_usb_data_budget)
  have e0: "snd_rcv_usb_data (h\<lparr>USB_READ_MAX_RETRY_CNT := Suc n\<rparr>) s sizeSnd rcv sizeRcv t =
     (case snd_rcv_loop h sizeSnd sizeRcv t (Suc n) SUCCESS s rcv of
        (Exhausted, rv, rcv1, s1) \<Rightarrow> (- ETIMEDOUT, rcv1, s1)
      | (ex, rv, rcv1, s1) \<Rightarrow> (rv, rcv1, s1))"
    by (rule snd_rcv_usb_data_budget)
  consider (brk) "r1 = SUCCESS" "c = sizeSnd" "r2 = SUCCESS" "rcv2 ! sizeRcv = 0"
    | (bad) "r1 = SUCCESS" "c = sizeSnd" "r2 = SUCCESS" "rcv2 ! sizeRcv \<noteq> 0"
    | (rd) "r1 = SUCCESS" "c = sizeSnd" "r2 \<noteq> SUCCESS"
    | (snd) "\<not> (r1 = SUCCESS \<and> c = sizeSnd)" by blast
  then show ?thesis
  proof cases
    case brk
    with False u d show ?thesis by (simp add: e0)
  next
    case bad
    with False u d show ?thesis by (simp add: e0 e3)
  next
    case rd
    with False u d show ?thesis by (simp add: e0 e2)
  next
    case snd
    then have "r1 \<noteq> SUCCESS \<or> c \<noteq> sizeSnd" by blast
    then show ?thesis
    proof
      assume "r1 \<noteq> SUCCESS"
      with False u show ?thesis by (simp add: e0 e1)
    next
      assume "c \<noteq> sizeSnd"
      with False u show ?thesis by (simp add: e0 e1)
    qed
  qed
qed

lemma nth_write_at:
  "off + length bs \<le> length buf \<Longrightarrow>
     write_at buf off bs ! i = (if off \<le> i \<and> i < off + length bs then bs ! (i - off) else buf ! i)"
proof (induction bs arbitrary: buf off)
  case Nil
  show ?case by auto
next
  case (Cons b bs)
  from Cons.prems have l: "Suc off + length bs \<le> length (buf[off := b])" by simp
  have ih: "write_at (buf[off := b]) (Suc off) bs ! i =
      (if Suc off \<le> i \<and> i < Suc off + length bs then bs ! (i - Suc off) else buf[off := b] ! i)"
    by (rule Cons.IH [OF l])
  show ?case
  proof (cases "i = off")
    case True
    with Cons.prems ih show ?thesis by simp
  next
    case False
    with Cons.prems ih show ?thesis
      by (auto simp: nth_Cons' Suc_diff_le)
  qed
qed

lemma stripped_needs_three:
  "0 < sz \<Longrightarrow> two_bytes_stripped sz bs \<noteq> [] \<Longrightarrow> 2 < length bs"
proof (rule ccontr)
  assume z: "0 < sz" and ne: "two_bytes_stripped sz bs \<noteq> []" and n: "\<not> 2 < length bs"
  from ne obtain j where j: "j < length bs" "j mod sz \<noteq> 0" "j mod sz \<noteq> 1"
    by (auto simp: two_bytes_stripped_def filter_empty_conv)
  from j(1) n have "j = 0 \<or> j = 1" by auto
  with j(2,3) z show False by (cases "sz = 1") auto
qed

lemma chip_read_data_one_transfer:
  assumes ns: "\<not> isShutDown s" and ui: "usb_in s = (0, bs, dt) # ins"
    and fit: "length bs \<le> USB_BUFFER_SIZE h" and sz: "0 < bulk_in_size s"
    and len: "0 < len" "len \<le> length (two_bytes_stripped (bulk_in_size s) bs)"
  shows "chip_read_data h s buff len t =
           (SUCCESS, write_at buff 0 (take len (two_bytes_stripped (bulk_in_size s) bs)),
            s\<lparr>usb_in := ins, clock := clock s + int dt\<rparr>)"
proof -
  from len have "two_bytes_stripped (bulk_in_size s) bs \<noteq> []" by auto
  from stripped_needs_three [OF sz this] have three: "2 < length bs" .
  have u: "usb_bulk_msg_in s = (0, bs, s\<lparr>usb_in := ins, clock := clock s + int dt\<rparr>)"
    using ui by (simp add: usb_bulk_msg_in_def)
  have ct: "chip_take (bulk_in_size s) len bs buff 0 =
              (write_at buff 0 (take len (two_bytes_stripped (bulk_in_size s) bs)), len)"
    using chip_extract_from [of "bulk_in_size s" 0 len 0 bs buff] sz len three
    by (simp add: chip_take_def two_bytes_stripped_def Let_def)
  have "chip_read_loop h len t (clock s) s buff 0 =
          (None, write_at buff 0 (take len (two_bytes_stripped (bulk_in_size s) bs)), len,
           s\<lparr>usb_in := ins, clock := clock s + int dt\<rparr>)"
    using ns u fit ct by (subst chip_read_loop.simps) simp
  then show ?thesis by (simp add: chip_read_data_def)
qed

text \<open>
  C4, as stated, fails: with a device that answers both attempts of the retry budget
  with the forty bytes asked for and the status byte 5, \<^verbatim>\<open>snd_rcv_usb_data\<close> returns
  \<^verbatim>\<open>-ETIMEDOUT\<close> (-110), the code of an exhausted retry budget, and not
  \<^verbatim>\<open>-EFAULT\<close> (-14); both commands and both answers are used up, and the
  response buffer holds the second answer with its status byte 5.
\<close>

theorem status_byte_reported_as_timeout:
  "snd_rcv_usb_data hdr_example
          (drv_example\<lparr>usb_out := [(0, 3), (0, 3)],
             usb_in := [(0, [1, 96] @ replicate 40 0 @ [5], 0),
                        (0, [1, 96] @ replicate 40 0 @ [5], 0)]\<rparr>)
          3 (replicate 41 0) 40 5
     = (- 110, replicate 40 0 @ [5], drv_example\<lparr>usb_out := [], usb_in := []\<rparr>)
   \<and> - ETIMEDOUT = - 110 \<and> - EFAULT = - 14"
  by code_simp

text \<open>
  C4, amended. \<^verbatim>\<open>snd_rcv_usb_data\<close> returns \<^verbatim>\<open>SUCCESS\<close>, and then the status byte of
  the response is 0; or \<^verbatim>\<open>-EPERM\<close>, and then the module is shutting down; or
  \<^verbatim>\<open>-ETIMEDOUT\<close>, the code of a used-up retry budget; the \<^verbatim>\<open>-EFAULT\<close> assigned
  for a status byte other than 0 is never returned. In the retry budget
  \<^verbatim>\<open>USB_READ_MAX_RETRY_CNT\<close>: with no attempt left the function returns
  \<^verbatim>\<open>-ETIMEDOUT\<close> and touches nothing; with an attempt left and the module shutting
  down it returns \<^verbatim>\<open>-EPERM\<close>; otherwise the attempt sends the command and, when it
  was sent whole, asks \<^verbatim>\<open>chip_read_data\<close> for \<open>sizeRcv + 1\<close> bytes, the expected
  payload and one trailing status byte. When that read succeeds and the byte at
  \<open>sizeRcv\<close> of what it stored is 0, the function returns \<^verbatim>\<open>SUCCESS\<close> with that
  response; in every other case (command not sent whole, read failed, status byte
  other than 0) the next attempt follows, with one attempt less and with the state
  and the response buffer the failed attempt left. When the device takes the command
  and answers with one transfer that carries more than \<open>sizeRcv\<close> payload bytes, the
  response is the first \<open>sizeRcv + 1\<close> of them and the status byte tested is the
  device's payload byte at offset \<open>sizeRcv\<close>.
\<close>

theorem snd_rcv_usb_data_results:
  "(snd_rcv_usb_data h s sizeSnd rcv sizeRcv t = (r, rcv1, s1) \<longrightarrow>
      (r = SUCCESS \<or> r = - EPERM \<or> r = - ETIMEDOUT) \<and> r \<noteq> - EFAULT
      \<and> (r = SUCCESS \<longrightarrow> rcv1 ! sizeRcv = 0)
      \<and> (r = - EPERM \<longrightarrow> isShutDown s))
   \<and> snd_rcv_usb_data (h\<lparr>USB_READ_MAX_RETRY_CNT := 0\<rparr>) s sizeSnd rcv sizeRcv t
        = (- ETIMEDOUT, rcv, s)
   \<and> snd_rcv_usb_data (h\<lparr>USB_READ_MAX_RETRY_CNT := Suc n\<rparr>) s sizeSnd rcv sizeRcv t =
       (if isShutDown s then (- EPERM, rcv, s)
        else
          (case usb_bulk_msg_out s of
             (r1, actualcCnt, sa) \<Rightarrow>
               if r1 = SUCCESS \<and> actualcCnt = sizeSnd then
                 (case chip_read_data h sa rcv (sizeRcv + 1) t of
                    (r2, rcv2, sb) \<Rightarrow>
                      if r2 = SUCCESS \<and> rcv2 ! sizeRcv = 0 then (SUCCESS, rcv2, sb)
                      else snd_rcv_usb_data (h\<lparr>USB_READ_MAX_RETRY_CNT := n\<rparr>) sb sizeSnd rcv2 sizeRcv t)
               else snd_rcv_usb_data (h\<lparr>USB_READ_MAX_RETRY_CNT := n\<rparr>) sa sizeSnd rcv sizeRcv t))
   \<and> (\<not> isShutDown s \<and> usb_out s = (0, sizeSnd) # outs \<and> usb_in s = (0, bs, dt) # ins
        \<and> length bs \<le> USB_BUFFER_SIZE h \<and> 0 < bulk_in_size s
        \<and> sizeRcv < length (two_bytes_stripped (bulk_in_size s) bs) \<and> sizeRcv < length rcv \<longrightarrow>
      snd_rcv_usb_data (h\<lparr>USB_READ_MAX_RETRY_CNT := Suc n\<rparr>) s sizeSnd rcv sizeRcv t =
        (let payload = take (sizeRcv + 1) (two_bytes_stripped (bulk_in_size s) bs);
             rcv2 = write_at rcv 0 payload;
             sb = s\<lparr>usb_out := outs, usb_in := ins, clock := clock s + int dt\<rparr>
         in if two_bytes_stripped (bulk_in_size s) bs ! sizeRcv = 0
            then (SUCCESS, rcv2, sb)
            else snd_rcv_usb_data (h\<lparr>USB_READ_MAX_RETRY_CNT := n\<rparr>) sb sizeSnd rcv2 sizeRcv t))"
proof -
  have p1: "snd_rcv_usb_data h s sizeSnd rcv sizeRcv t = (r, rcv1, s1) \<longrightarrow>
      (r = SUCCESS \<or> r = - EPERM \<or> r = - ETIMEDOUT) \<and> r \<noteq> - EFAULT
      \<and> (r = SUCCESS \<longrightarrow> rcv1 ! sizeRcv = 0)
      \<and> (r = - EPERM \<longrightarrow> isShutDown s)"
  proof
    assume a: "snd_rcv_usb_data h s sizeSnd rcv sizeRcv t = (r, rcv1, s1)"
    obtain ex r0 rcv0 s0 where
      l: "snd_rcv_loop h sizeSnd sizeRcv t (USB_READ_MAX_RETRY_CNT h) SUCCESS s rcv = (ex, r0, rcv0, s0)"
      by (cases "snd_rcv_loop h sizeSnd sizeRcv t (USB_READ_MAX_RETRY_CNT h) SUCCESS s rcv") auto
    have ret: "ex = Returned \<Longrightarrow> isShutDown s"
      using l snd_rcv_loop_returned by blast
    from snd_rcv_loop_frame[OF l] a l ret
    show "(r = SUCCESS \<or> r = - EPERM \<or> r = - ETIMEDOUT) \<and> r \<noteq> - EFAULT
      \<and> (r = SUCCESS \<longrightarrow> rcv1 ! sizeRcv = 0)
      \<and> (r = - EPERM \<longrightarrow> isShutDown s)"
      by (cases ex) (auto simp: snd_rcv_usb_data_def SUCCESS_def ETIMEDOUT_def EPERM_def EFAULT_def)
  qed
  have p4: "snd_rcv_usb_data (h\<lparr>USB_READ_MAX_RETRY_CNT := Suc n\<rparr>) s sizeSnd rcv sizeRcv t =
        (let payload = take (sizeRcv + 1) (two_bytes_stripped (bulk_in_size s) bs);
             rcv2 = write_at rcv 0 payload;
             sb = s\<lparr>usb_out := outs, usb_in := ins, clock := clock s + int dt\<rparr>
         in if two_bytes_stripped (bulk_in_size s) bs ! sizeRcv = 0
            then (SUCCESS, rcv2, sb)
            else snd_rcv_usb_data (h\<lparr>USB_READ_MAX_RETRY_CNT := n\<rparr>) sb sizeSnd rcv2 sizeRcv t)"
    if ns: "\<not> isShutDown s" and uo: "usb_out s = (0, sizeSnd) # outs"
      and ui: "usb_in s = (0, bs, dt) # ins" and fit: "length bs \<le> USB_BUFFER_SIZE h"
      and sz: "0 < bulk_in_size s"
      and pl: "sizeRcv < length (two_bytes_stripped (bulk_in_size s) bs)"
      and rl: "sizeRcv < length rcv"
  proof -
    let ?p = "take (sizeRcv + 1) (two_bytes_stripped (bulk_in_size s) bs)"
    let ?sa = "s\<lparr>usb_out := outs\<rparr>"
    have u: "usb_bulk_msg_out s = (SUCCESS, sizeSnd, ?sa)"
      using uo by (simp add: usb_bulk_msg_out_def SUCCESS_def)
    have c: "chip_read_data h ?sa rcv (sizeRcv + 1) t =
               (SUCCESS, write_at rcv 0 ?p, ?sa\<lparr>usb_in := ins, clock := clock ?sa + int dt\<rparr>)"
      using chip_read_data_one_transfer [of ?sa bs dt ins h "sizeRcv + 1" rcv t] ns ui fit sz pl
      by simp
    have lp: "length ?p = sizeRcv + 1" using pl by simp
    have st: "write_at rcv 0 ?p ! sizeRcv = two_bytes_stripped (bulk_in_size s) bs ! sizeRcv"
      using nth_write_at [of 0 ?p rcv sizeRcv] lp rl pl by simp
    show ?thesis
      using ns u c st by (simp add: snd_rcv_usb_data_Suc Let_def)
  qed
  from p1 p4 show ?thesis
    by (simp only: snd_rcv_usb_data_zero snd_rcv_usb_data_Suc [symmetric] simp_thms) blast
qed

theorem snd_rcv_usb_data_results_witness:
  "snd_rcv_usb_data hdr_example drv_retry 3 (replicate 41 0) 40 5
       = (0, replicate 40 9 @ [0], drv_example\<lparr>usb_out := [], usb_in := []\<rparr>)
   \<and> (0::int) = SUCCESS \<and> (replicate 40 9 @ [0::u8]) ! 40 = 0
   \<and> \<not> isShutDown drv_retry
   \<and> usb_out drv_retry = [(0, 3), (0, 3)]
   \<and> usb_in drv_retry = [(0, [1, 96] @ replicate 40 7 @ [5], 0), (0, [1, 96] @ replicate 40 9 @ [0], 0)]
   \<and> length ([1, 96] @ replicate 40 7 @ [5::u8]) \<le> USB_BUFFER_SIZE hdr_example
   \<and> 0 < bulk_in_size drv_retry
   \<and> 40 < length (two_bytes_stripped (bulk_in_size drv_retry) ([1, 96] @ replicate 40 7 @ [5]))
   \<and> 40 < length (replicate 41 (0::u8))
   \<and> two_bytes_stripped (bulk_in_size drv_retry) ([1, 96] @ replicate 40 7 @ [5]) ! 40 = 5
   \<and> snd_rcv_usb_data (hdr_example\<lparr>USB_READ_MAX_RETRY_CNT := Suc 1\<rparr>) drv_retry 3 (replicate 41 0) 40 5
       = snd_rcv_usb_data (hdr_example\<lparr>USB_READ_MAX_RETRY_CNT := 1\<rparr>)
           (drv_retry\<lparr>usb_out := [(0, 3)], usb_in := [(0, [1, 96] @ replicate 40 9 @ [0], 0)],
              clock := clock drv_retry + int 0\<rparr>)
           3 (replicate 40 7 @ [5]) 40 5"
proof -
  have e: "snd_rcv_usb_data hdr_example drv_retry 3 (replicate 41 0) 40 5
             = (0, replicate 40 9 @ [0], drv_example\<lparr>usb_out := [], usb_in := []\<rparr>)"
    by code_simp
  have a1: "\<not> isShutDown drv_retry" by code_simp
  have a2: "usb_out drv_retry = (0, 3) # [(0, 3)]" by code_simp
  have a3: "usb_in drv_retry = (0, [1, 96] @ replicate 40 7 @ [5], 0) # [(0, [1, 96] @ replicate 40 9 @ [0], 0)]"
    by code_simp
  have a4: "length ([1, 96] @ replicate 40 7 @ [5::u8]) \<le> USB_BUFFER_SIZE hdr_example" by code_simp
  have a5: "0 < bulk_in_size drv_retry" by code_simp
  have a6: "40 < length (two_bytes_stripped (bulk_in_size drv_retry) ([1, 96] @ replicate 40 7 @ [5]))"
    by code_simp
  have a7: "40 < length (replicate 41 (0::u8))" by simp
  have a8: "two_bytes_stripped (bulk_in_size drv_retry) ([1, 96] @ replicate 40 7 @ [5]) ! 40 = 5"
    by code_simp
  have a9: "write_at (replicate 41 0) 0
              (take (40 + 1) (two_bytes_stripped (bulk_in_size drv_retry) ([1, 96] @ replicate 40 7 @ [5])))
            = replicate 40 7 @ [5]"
    by code_simp
  note th = snd_rcv_usb_data_results
    [where h = hdr_example and s = drv_retry and sizeSnd = 3 and rcv = "replicate 41 0"
       and sizeRcv = 40 and t = 5 and r = 0 and ?rcv1.0 = "replicate 40 9 @ [0]"
       and ?s1.0 = "drv_example\<lparr>usb_out := [], usb_in := []\<rparr>" and n = 1
       and outs = "[(0, 3)]" and bs = "[1, 96] @ replicate 40 7 @ [5]" and dt = 0
       and ins = "[(0, [1, 96] @ replicate 40 9 @ [0], 0)]"]
  from th have c1: "(0::int) = SUCCESS \<and> (replicate 40 9 @ [0::u8]) ! 40 = 0"
    using e by (simp add: SUCCESS_def)
  note th4 = th [THEN conjunct2, THEN conjunct2, THEN conjunct2, rule_format]
  from a1 a2 a3 a4 a5 a6 a7 have c2:
    "snd_rcv_usb_data (hdr_example\<lparr>USB_READ_MAX_RETRY_CNT := Suc 1\<rparr>) drv_retry 3 (replicate 41 0) 40 5
       = snd_rcv_usb_data (hdr_example\<lparr>USB_READ_MAX_RETRY_CNT := 1\<rparr>)
           (drv_retry\<lparr>usb_out := [(0, 3)], usb_in := [(0, [1, 96] @ replicate 40 9 @ [0], 0)],
              clock := clock drv_retry + int 0\<rparr>)
           3 (replicate 40 7 @ [5]) 40 5"
    using th4 a8 a9 by (simp add: Let_def)
  from e c1 a1 a2 a3 a4 a5 a6 a7 a8 c2 show ?thesis by simp
qed

section \<open>Serving a read\<close>

lemma read_chunk_result:
  assumes "read_chunk h s ubuf tot len = (brk, r, s1, ubuf1, tot1)"
  shows "(\<not> brk \<longrightarrow> curTrngOutIdx s1 \<le> TRND_OUT_BUFFSIZE h \<and> r = int tot1)
     \<and> (curTrngOutIdx s \<le> TRND_OUT_BUFFSIZE h \<longrightarrow> curTrngOutIdx s1 \<le> TRND_OUT_BUFFSIZE h)
     \<and> (tot \<le> len \<longrightarrow> tot1 \<le> len) \<and> (brk \<longrightarrow> r < 0)"
proof -
  obtain r0 s0 where g: "get_entropy_bytes h s = (r0, s0)"
    by (cases "get_entropy_bytes h s") auto
  note f = get_entropy_bytes_frame[OF g]
  show ?thesis
  proof (cases "r0 = SUCCESS")
    case False
    with assms g f show ?thesis by (auto simp: read_chunk_def SUCCESS_def)
  next
    case True
    with f have c: "curTrngOutIdx s0 \<le> TRND_OUT_BUFFSIZE h" by auto
    from assms g True c show ?thesis
      by (auto simp: read_chunk_def Let_def EFAULT_def split: if_splits prod.splits)
  qed
qed

lemma read_loop_result:
  "tot \<le> len \<Longrightarrow> read_loop h s ubuf tot len = (r, s', ubuf') \<Longrightarrow>
     (r < 0 \<or> r = int len)
     \<and> (curTrngOutIdx s \<le> TRND_OUT_BUFFSIZE h \<longrightarrow> curTrngOutIdx s' \<le> TRND_OUT_BUFFSIZE h)"
proof (induction h s ubuf tot len rule: read_loop.induct)
  case (1 h s ubuf tot len)
  obtain brk r1 s1 u1 t1 where c: "read_chunk h s ubuf tot len = (brk, r1, s1, u1, t1)"
    by (cases "read_chunk h s ubuf tot len") auto
  note rc = read_chunk_result[OF c]
  show ?case
  proof (cases "\<not> brk \<and> t1 < len")
    case True
    with "1.prems"(2) c have "read_loop h s1 u1 t1 len = (r, s', ubuf')"
      by (subst (asm) read_loop.simps) simp
    from "1.IH"[OF c[symmetric] refl refl refl True _ this] True rc show ?thesis
      by auto
  next
    case False
    with "1.prems"(2) c have "r = r1" "s' = s1"
      by (subst (asm) read_loop.simps, auto)+
    with False rc "1.prems"(1) show ?thesis by auto
  qed
qed

lemma read_loop_refill_fails:
  "fst (get_entropy_bytes h s) \<noteq> SUCCESS \<Longrightarrow>
     read_loop h s ubuf tot len = (fst (get_entropy_bytes h s), snd (get_entropy_bytes h s), ubuf)"
proof -
  assume a: "fst (get_entropy_bytes h s) \<noteq> SUCCESS"
  obtain r0 s0 where g: "get_entropy_bytes h s = (r0, s0)"
    by (cases "get_entropy_bytes h s") auto
  with a have "read_chunk h s ubuf tot len = (True, r0, s0, ubuf, tot)"
    by (simp add: read_chunk_def)
  with g show ?thesis by (subst read_loop.simps) simp
qed

text \<open>
  C9. In every pass of the read loop that takes bytes, the cursor \<^verbatim>\<open>curTrngOutIdx\<close> after
  the take is at most \<^verbatim>\<open>TRND_OUT_BUFFSIZE\<close>; a cursor that is at most
  \<^verbatim>\<open>TRND_OUT_BUFFSIZE\<close> before \<^verbatim>\<open>device_read\<close> is so after it, however the call
  ends; and while the cursor is below \<^verbatim>\<open>TRND_OUT_BUFFSIZE\<close>, \<^verbatim>\<open>get_entropy_bytes\<close>
  returns \<^verbatim>\<open>SUCCESS\<close> and leaves the whole state as it is: no refill, the same block,
  the same cursor.
\<close>

theorem cursor_within_block:
  "(read_chunk h s ubuf tot len = (False, r, s1, ubuf1, tot1) \<longrightarrow>
      curTrngOutIdx s1 \<le> TRND_OUT_BUFFSIZE h)
   \<and> (curTrngOutIdx s \<le> TRND_OUT_BUFFSIZE h \<longrightarrow>
        curTrngOutIdx (fst (snd (device_read h locked s ubuf len))) \<le> TRND_OUT_BUFFSIZE h)
   \<and> (curTrngOutIdx s < TRND_OUT_BUFFSIZE h \<longrightarrow> get_entropy_bytes h s = (SUCCESS, s))"
proof (intro conjI impI)
  assume "read_chunk h s ubuf tot len = (False, r, s1, ubuf1, tot1)"
  from read_chunk_result[OF this] show "curTrngOutIdx s1 \<le> TRND_OUT_BUFFSIZE h" by simp
next
  assume c: "curTrngOutIdx s \<le> TRND_OUT_BUFFSIZE h"
  obtain r0 s0 u0 where
    l: "read_loop h (s\<lparr>isDeviceOpPending := True\<rparr>) ubuf 0 len = (r0, s0, u0)"
    by (cases "read_loop h (s\<lparr>isDeviceOpPending := True\<rparr>) ubuf 0 len") auto
  from read_loop_result[OF _ l] c have "curTrngOutIdx s0 \<le> TRND_OUT_BUFFSIZE h" by simp
  with c l show "curTrngOutIdx (fst (snd (device_read h locked s ubuf len))) \<le> TRND_OUT_BUFFSIZE h"
    by (simp add: device_read_def)
next
  assume "curTrngOutIdx s < TRND_OUT_BUFFSIZE h"
  then show "get_entropy_bytes h s = (SUCCESS, s)" by (simp add: get_entropy_bytes_def)
qed

theorem cursor_within_block_witness:
  "read_chunk hdr_example (drv_example\<lparr>curTrngOutIdx := 30\<rparr>) [0, 0, 0, 0] 0 4
     = (False, 2, drv_example\<lparr>curTrngOutIdx := 32\<rparr>, [170, 170, 0, 0], 2)
   \<and> curTrngOutIdx (drv_example\<lparr>curTrngOutIdx := 32\<rparr>) \<le> TRND_OUT_BUFFSIZE hdr_example
   \<and> curTrngOutIdx (drv_example\<lparr>curTrngOutIdx := 30\<rparr>) < TRND_OUT_BUFFSIZE hdr_example
   \<and> curTrngOutIdx
         (fst (snd (device_read hdr_example True (drv_example\<lparr>curTrngOutIdx := 30\<rparr>) [0, 0, 0, 0] 4)))
       \<le> TRND_OUT_BUFFSIZE hdr_example
   \<and> get_entropy_bytes hdr_example (drv_example\<lparr>curTrngOutIdx := 30\<rparr>)
       = (SUCCESS, drv_example\<lparr>curTrngOutIdx := 30\<rparr>)"
proof -
  have e: "read_chunk hdr_example (drv_example\<lparr>curTrngOutIdx := 30\<rparr>) [0, 0, 0, 0] 0 4
             = (False, 2, drv_example\<lparr>curTrngOutIdx := 32\<rparr>, [170, 170, 0, 0], 2)"
    by code_simp
  have c: "curTrngOutIdx (drv_example\<lparr>curTrngOutIdx := 30\<rparr>) < TRND_OUT_BUFFSIZE hdr_example"
    by (simp add: hdr_example_def)
  from cursor_within_block
         [of hdr_example "drv_example\<lparr>curTrngOutIdx := 30\<rparr>" "[0, 0, 0, 0]" 0 4 2
             "drv_example\<lparr>curTrngOutIdx := 32\<rparr>" "[170, 170, 0, 0]" 2 True]
       e c
  show ?thesis by simp
qed

text \<open>
  C5, as stated, fails: two bytes are left in the block and the device is silent. A
  read of four bytes copies the two bytes to the caller, the refill that follows
  times out, and \<^verbatim>\<open>device_read\<close> returns \<^verbatim>\<open>-ETIMEDOUT\<close> (-110), not the count 2.
\<close>

theorem partial_read_returns_error:
  "fst (device_read hdr_example True (drv_example\<lparr>curTrngOutIdx := 30, usb_out := []\<rparr>)
          [0, 0, 0, 0] 4) = - 110
   \<and> snd (snd (device_read hdr_example True (drv_example\<lparr>curTrngOutIdx := 30, usb_out := []\<rparr>)
          [0, 0, 0, 0] 4)) = [170, 170, 0, 0]"
  by code_simp

text \<open>
  C5, amended. In \<^verbatim>\<open>device_read\<close>, for every requested length: when a refill
  (\<^verbatim>\<open>get_entropy_bytes\<close>) fails in any pass of the loop, the first or a later one, the
  loop ends with the error code of that refill as the return value, whatever number
  of bytes has been copied before; the bytes copied stay in the caller's buffer and
  their count is not reported. A return value that is not negative is the requested
  length, all of it served.
\<close>

theorem device_read_count_or_error:
  "drv_ok h s \<Longrightarrow>
     (0 \<le> fst (device_read h locked s ubuf len) \<longrightarrow> fst (device_read h locked s ubuf len) = int len)
   \<and> (fst (get_entropy_bytes h s) \<noteq> SUCCESS \<longrightarrow>
        read_loop h s ubuf tot len
          = (fst (get_entropy_bytes h s), snd (get_entropy_bytes h s), ubuf))"
proof (intro conjI impI)
  assume nn: "0 \<le> fst (device_read h locked s ubuf len)"
  obtain r0 s0 u0 where
    l: "read_loop h (s\<lparr>isDeviceOpPending := True\<rparr>) ubuf 0 len = (r0, s0, u0)"
    by (cases "read_loop h (s\<lparr>isDeviceOpPending := True\<rparr>) ubuf 0 len") auto
  from read_loop_result[OF _ l] have "r0 < 0 \<or> r0 = int len" by simp
  with nn l show "fst (device_read h locked s ubuf len) = int len"
    by (auto simp: device_read_def EPERM_def ENODATA_def split: if_splits)
next
  assume "fst (get_entropy_bytes h s) \<noteq> SUCCESS"
  then show "read_loop h s ubuf tot len
               = (fst (get_entropy_bytes h s), snd (get_entropy_bytes h s), ubuf)"
    by (rule read_loop_refill_fails)
qed

theorem device_read_count_or_error_witness:
  "drv_ok hdr_example (drv_example\<lparr>curTrngOutIdx := 30\<rparr>)
   \<and> drv_ok hdr_example (drv_example\<lparr>usb_out := []\<rparr>)
   \<and> fst (device_read hdr_example True (drv_example\<lparr>curTrngOutIdx := 30\<rparr>) [0, 0, 0, 0] 2) = 2
   \<and> fst (get_entropy_bytes hdr_example (drv_example\<lparr>usb_out := []\<rparr>)) = - 110
   \<and> fst (read_loop hdr_example (drv_example\<lparr>usb_out := []\<rparr>) [170, 170, 0, 0] 2 4) = - 110"
proof -
  have a: "drv_ok hdr_example (drv_example\<lparr>curTrngOutIdx := 30\<rparr>)" by code_simp
  have b: "drv_ok hdr_example (drv_example\<lparr>usb_out := []\<rparr>)" by code_simp
  have c: "fst (device_read hdr_example True (drv_example\<lparr>curTrngOutIdx := 30\<rparr>) [0, 0, 0, 0] 2) = 2"
    by code_simp
  have d: "fst (get_entropy_bytes hdr_example (drv_example\<lparr>usb_out := []\<rparr>)) = - 110"
    by code_simp
  from device_read_count_or_error
         [OF a, of True "[0, 0, 0, 0]" 2]
       device_read_count_or_error
         [OF b, of True "[170, 170, 0, 0]" 4 2]
       a b c d
  show ?thesis by (simp add: SUCCESS_def)
qed

section \<open>A refill with a latched health test\<close>

lemma digest_example:
  "sha256_hashCurrentBlock k_example sha256_initialize
     [0, 0, 0, 0, 0, 0, 0, 0, 0, 0, 413145, 2147483648, 0, 0, 0, 352]
   = [3283306696, 2183399749, 2762730705, 493944639,
      1760801533, 1529333858, 676896189, 386078000]"
  by code_simp

lemma generateHash_example:
  "sha256_generateHash k_example [0, 0, 0, 0, 0, 0, 0, 0, 0, 0, 413145] 11
   = Some [3283306696, 2183399749, 2762730705, 493944639,
           1760801533, 1529333858, 676896189, 386078000]"
  by (simp add: sha256_generateHash_def maxDataBlockSizeWords_def Let_def numeral_2_eq_2 digest_example)

lemma generateHash_hdr_example:
  "sha256_generateHash (k_table hdr_example) [0, 0, 0, 0, 0, 0, 0, 0, 0, 0, 413145]
     (word_of_nat (MIN_INPUT_NUM_WORDS hdr_example + 1))
   = Some [3283306696, 2183399749, 2762730705, 493944639,
           1760801533, 1529333858, 676896189, 386078000]"
  using generateHash_example by (simp add: hdr_example_def)

lemma raw_words_example:
  "map (\<lambda>j. load_word (replicate 41 0) (0 + j)) [0..<MIN_INPUT_NUM_WORDS hdr_example]
     @ drop (MIN_INPUT_NUM_WORDS hdr_example) (replicate 11 0)
   = [0, 0, 0, 0, 0, 0, 0, 0, 0, 0, 0]"
  by code_simp

lemma stamp_example:
  "sha256_stampSerialNumber hdr_example [0, 0, 0, 0, 0, 0, 0, 0, 0, 0, 0] 413145
   = ([0, 0, 0, 0, 0, 0, 0, 0, 0, 0, 413145], 413146)"
  by code_simp

lemma store_example:
  "write_at (replicate 32 170) (4 * 0)
     (concat (map word_bytes [3283306696, 2183399749, 2762730705, 493944639,
                              1760801533, 1529333858, 676896189, 386078000]))
   = [200, 72, 179, 195, 69, 9, 36, 130, 209, 236, 171, 164, 63, 255, 112, 29,
      253, 178, 243, 104, 98, 200, 39, 91, 189, 157, 88, 40, 48, 21, 3, 23]"
  by code_simp

lemma condition_step_example:
  assumes "buffRndIn s = replicate 41 0" "srcToHash s = replicate 11 0"
    "blockSerialNumber s = 413145" "buffTRndOut s = replicate 32 170"
  shows "condition_step hdr_example s 0 0 =
     s\<lparr>srcToHash := [0, 0, 0, 0, 0, 0, 0, 0, 0, 0, 413145], blockSerialNumber := 413146,
       buffTRndOut :=
         [200, 72, 179, 195, 69, 9, 36, 130, 209, 236, 171, 164, 63, 255, 112, 29,
          253, 178, 243, 104, 98, 200, 39, 91, 189, 157, 88, 40, 48, 21, 3, 23]\<rparr>"
  by (simp only: condition_step_def assms Let_def raw_words_example stamp_example
        generateHash_hdr_example store_example prod.case option.case)

lemma condition_block_example:
  assumes "buffRndIn s = replicate 41 0" "srcToHash s = replicate 11 0"
    "blockSerialNumber s = 413145" "buffTRndOut s = replicate 32 170"
  shows "condition_block hdr_example s =
     s\<lparr>rct := rct_restart (rct s), apt := apt_restart (apt s),
       srcToHash := [0, 0, 0, 0, 0, 0, 0, 0, 0, 0, 413145], blockSerialNumber := 413146,
       buffTRndOut :=
         [200, 72, 179, 195, 69, 9, 36, 130, 209, 236, 171, 164, 63, 255, 112, 29,
          253, 178, 243, 104, 98, 200, 39, 91, 189, 157, 88, 40, 48, 21, 3, 23]\<rparr>"
proof -
  let ?s = "s\<lparr>rct := rct_restart (rct s), apt := apt_restart (apt s)\<rparr>"
  have a: "condition_loop hdr_example ?s 0 0 =
             condition_loop hdr_example (condition_step hdr_example ?s 0 0)
               (0 + MIN_INPUT_NUM_WORDS hdr_example) (0 + OUT_NUM_WORDS hdr_example)"
    by (rule condition_loop_unfold) (simp_all add: hdr_example_def)
  have b: "condition_loop hdr_example (condition_step hdr_example ?s 0 0)
             (0 + MIN_INPUT_NUM_WORDS hdr_example) (0 + OUT_NUM_WORDS hdr_example)
           = condition_step hdr_example ?s 0 0"
    by (rule condition_loop_stop) (simp add: hdr_example_def)
  have c: "condition_step hdr_example ?s 0 0 =
     ?s\<lparr>srcToHash := [0, 0, 0, 0, 0, 0, 0, 0, 0, 0, 413145], blockSerialNumber := 413146,
       buffTRndOut :=
         [200, 72, 179, 195, 69, 9, 36, 130, 209, 236, 171, 164, 63, 255, 112, 29,
          253, 178, 243, 104, 98, 200, 39, 91, 189, 157, 88, 40, 48, 21, 3, 23]\<rparr>"
    by (rule condition_step_example) (simp_all add: assms)
  have "condition_block hdr_example s = condition_step hdr_example ?s 0 0"
    by (simp only: condition_block_def a b)
  with c show ?thesis by simp
qed

lemma exchange_example:
  "rcv_exchange hdr_example (drv_latched\<lparr>isDeviceOpPending := True\<rparr>) = (0, drv_exchanged)"
  by code_simp

lemma sample_example:
  "sample_block hdr_example
     (drv_exchanged\<lparr>rct := rct_restart (rct drv_exchanged), apt := apt_restart (apt drv_exchanged),
        srcToHash := [0, 0, 0, 0, 0, 0, 0, 0, 0, 0, 413145], blockSerialNumber := 413146,
        buffTRndOut :=
          [200, 72, 179, 195, 69, 9, 36, 130, 209, 236, 171, 164, 63, 255, 112, 29,
           253, 178, 243, 104, 98, 200, 39, 91, 189, 157, 88, 40, 48, 21, 3, 23],
        curTrngOutIdx := 0\<rparr>)
   = drv_refilled\<lparr>isDeviceOpPending := True, isUsbOpPending := True\<rparr>"
  by code_simp

lemma refill_example:
  "rcv_rnd_bytes hdr_example (drv_latched\<lparr>isDeviceOpPending := True\<rparr>)
     = (- 1, drv_refilled\<lparr>isDeviceOpPending := True\<rparr>)"
proof -
  have c: "condition_block hdr_example drv_exchanged =
     drv_exchanged\<lparr>rct := rct_restart (rct drv_exchanged), apt := apt_restart (apt drv_exchanged),
       srcToHash := [0, 0, 0, 0, 0, 0, 0, 0, 0, 0, 413145], blockSerialNumber := 413146,
       buffTRndOut :=
         [200, 72, 179, 195, 69, 9, 36, 130, 209, 236, 171, 164, 63, 255, 112, 29,
          253, 178, 243, 104, 98, 200, 39, 91, 189, 157, 88, 40, 48, 21, 3, 23]\<rparr>"
    by (rule condition_block_example)
       (simp_all add: drv_exchanged_def drv_latched_def drv_example_def)
  have r: "isEntropySrcRdy (drv_latched\<lparr>isDeviceOpPending := True\<rparr>)"
    "\<not> isShutDown (drv_latched\<lparr>isDeviceOpPending := True\<rparr>)"
    by (simp_all add: drv_latched_def drv_example_def)
  show ?thesis
    by (simp add: rcv_rnd_bytes_def r exchange_example SUCCESS_def EPERM_def Let_def c
          sample_example)
       (simp add: drv_refilled_def)
qed

text \<open>
  C1, on the code: the repetition count test is latched and the block is used up. A
  read of four bytes refills: the exchange succeeds, the new block is hashed into
  \<^verbatim>\<open>buffTRndOut\<close>, the cursor is set to 0, and then the latch makes \<^verbatim>\<open>rcv_rnd_bytes\<close>
  return \<^verbatim>\<open>-EPERM\<close>; the read fails with -1. The latch is still set, yet the next
  call of \<^verbatim>\<open>get_entropy_bytes\<close> finds the cursor below \<^verbatim>\<open>TRND_OUT_BUFFSIZE\<close> and
  returns \<^verbatim>\<open>SUCCESS\<close> without a refill, and the next read of four bytes returns 4
  with the first four bytes of the block that failed.
\<close>

theorem latched_block_is_served:
  "rct_statusByte (rct drv_latched) = 1
   \<and> device_read hdr_example True drv_latched [0, 0, 0, 0] 4 = (- 1, drv_refilled, [0, 0, 0, 0])
   \<and> rct_statusByte (rct drv_refilled) = 1
   \<and> get_entropy_bytes hdr_example drv_refilled = (0, drv_refilled)
   \<and> device_read hdr_example True drv_refilled [0, 0, 0, 0] 4
       = (4, drv_refilled\<lparr>curTrngOutIdx := 4\<rparr>, [200, 72, 179, 195])"
proof -
  have a: "rct_statusByte (rct drv_latched) = 1"
    by (simp add: drv_latched_def)
  have g: "get_entropy_bytes hdr_example (drv_latched\<lparr>isDeviceOpPending := True\<rparr>)
             = (- 1, drv_refilled\<lparr>isDeviceOpPending := True\<rparr>)"
    by (simp add: get_entropy_bytes_def refill_example)
       (simp add: hdr_example_def drv_latched_def drv_example_def)
  have l: "read_loop hdr_example (drv_latched\<lparr>isDeviceOpPending := True\<rparr>) [0, 0, 0, 0] 0 4
             = (- 1, drv_refilled\<lparr>isDeviceOpPending := True\<rparr>, [0, 0, 0, 0])"
    using read_loop_refill_fails
            [of hdr_example "drv_latched\<lparr>isDeviceOpPending := True\<rparr>" "[0, 0, 0, 0]" 0 4]
    by (simp add: g SUCCESS_def)
  have b: "device_read hdr_example True drv_latched [0, 0, 0, 0] 4
             = (- 1, drv_refilled, [0, 0, 0, 0])"
    by (simp add: device_read_def l) (simp add: drv_latched_def drv_example_def drv_refilled_def)
  have c: "rct_statusByte (rct drv_refilled) = 1"
    by (simp add: drv_refilled_def)
  have d: "get_entropy_bytes hdr_example drv_refilled = (0, drv_refilled)"
    by (simp add: get_entropy_bytes_def SUCCESS_def hdr_example_def drv_refilled_def)
  have e: "device_read hdr_example True drv_refilled [0, 0, 0, 0] 4
             = (4, drv_refilled\<lparr>curTrngOutIdx := 4\<rparr>, [200, 72, 179, 195])"
    by code_simp
  from a b c d e show ?thesis by simp
qed

theorem latched_block_is_served_witness:
  "rct_statusByte (rct drv_refilled) = 1
   \<and> fst (device_read hdr_example True drv_refilled [0, 0, 0, 0] 4) = 4
   \<and> snd (snd (device_read hdr_example True drv_refilled [0, 0, 0, 0] 4)) = [200, 72, 179, 195]"
  using latched_block_is_served by simp

text \<open>
  C2, as stated, fails: in the refill of the read above \<^verbatim>\<open>rcv_rnd_bytes\<close> returns
  \<^verbatim>\<open>-EPERM\<close> (-1) for the latched health test, and \<^verbatim>\<open>buffTRndOut\<close>, which held 32 bytes
  170, holds the new block, and the cursor, which was 32, is 0.
\<close>

theorem failed_refill_overwrites_block:
  "fst (rcv_rnd_bytes hdr_example (drv_latched\<lparr>isDeviceOpPending := True\<rparr>)) = - 1
   \<and> buffTRndOut (drv_latched\<lparr>isDeviceOpPending := True\<rparr>) = replicate 32 170
   \<and> buffTRndOut (snd (rcv_rnd_bytes hdr_example (drv_latched\<lparr>isDeviceOpPending := True\<rparr>)))
       = [200, 72, 179, 195, 69, 9, 36, 130, 209, 236, 171, 164, 63, 255, 112, 29,
          253, 178, 243, 104, 98, 200, 39, 91, 189, 157, 88, 40, 48, 21, 3, 23]
   \<and> curTrngOutIdx (drv_latched\<lparr>isDeviceOpPending := True\<rparr>) = 32
   \<and> curTrngOutIdx (snd (rcv_rnd_bytes hdr_example (drv_latched\<lparr>isDeviceOpPending := True\<rparr>))) = 0"
  by (simp add: refill_example) (simp add: drv_latched_def drv_example_def drv_refilled_def)

text \<open>
  C2, amended. When the source is not ready, the module is shutting down or the
  exchange with the device fails (a shutdown, or the retry budget used up, which is
  also how a trailing status byte other than 0 on every attempt ends),
  \<^verbatim>\<open>rcv_rnd_bytes\<close> returns that error and leaves \<^verbatim>\<open>buffTRndOut\<close> and the cursor
  \<^verbatim>\<open>curTrngOutIdx\<close> exactly as they were. When the exchange succeeds and the refill
  fails, it fails on a latched health test: \<^verbatim>\<open>rcv_rnd_bytes\<close> returns \<^verbatim>\<open>-EPERM\<close>, and
  \<^verbatim>\<open>buffTRndOut\<close> holds the block just conditioned from the new raw bytes, which
  is hashed into it in place before the tests are consulted.
\<close>

theorem refill_failure_effects:
  "drv_ok h s \<Longrightarrow> rcv_rnd_bytes h s = (r, s') \<Longrightarrow>
     (\<not> isEntropySrcRdy s \<or> isShutDown s \<longrightarrow>
        r = - EPERM \<and> buffTRndOut s' = buffTRndOut s \<and> curTrngOutIdx s' = curTrngOutIdx s)
   \<and> (isEntropySrcRdy s \<and> \<not> isShutDown s \<and> fst (rcv_exchange h s) \<noteq> SUCCESS \<longrightarrow>
        r = fst (rcv_exchange h s) \<and> r \<noteq> SUCCESS
        \<and> buffTRndOut s' = buffTRndOut s \<and> curTrngOutIdx s' = curTrngOutIdx s)
   \<and> (isEntropySrcRdy s \<and> \<not> isShutDown s \<and> fst (rcv_exchange h s) = SUCCESS \<and> r \<noteq> SUCCESS \<longrightarrow>
        r = - EPERM \<and> (rct_statusByte (rct s') \<noteq> 0 \<or> apt_statusByte (apt s') \<noteq> 0)
        \<and> buffTRndOut s' = buffTRndOut (condition_block h (snd (rcv_exchange h s))))"
proof -
  assume a: "rcv_rnd_bytes h s = (r, s')"
  obtain r0 s4 where e: "rcv_exchange h s = (r0, s4)" by (cases "rcv_exchange h s") auto
  define s7 where "s7 = (condition_block h s4)\<lparr>curTrngOutIdx := 0\<rparr>"
  have p1: "\<not> isEntropySrcRdy s \<or> isShutDown s \<Longrightarrow>
              r = - EPERM \<and> buffTRndOut s' = buffTRndOut s \<and> curTrngOutIdx s' = curTrngOutIdx s"
    using a by (auto simp: rcv_rnd_bytes_def)
  have p2: "isEntropySrcRdy s \<and> \<not> isShutDown s \<and> r0 \<noteq> SUCCESS \<Longrightarrow>
              r = r0 \<and> buffTRndOut s' = buffTRndOut s \<and> curTrngOutIdx s' = curTrngOutIdx s"
    using a e rcv_exchange_frame[OF e] by (auto simp: rcv_rnd_bytes_def)
  have p3: "isEntropySrcRdy s \<and> \<not> isShutDown s \<and> r0 = SUCCESS \<and> r \<noteq> SUCCESS \<Longrightarrow>
              r = - EPERM \<and> (rct_statusByte (rct s') \<noteq> 0 \<or> apt_statusByte (apt s') \<noteq> 0)
              \<and> buffTRndOut s' = buffTRndOut (condition_block h s4)"
    using a e sample_block_fields[of h s7]
    by (auto simp: rcv_rnd_bytes_def Let_def s7_def split: if_splits)
  from p1 p2 p3 e show ?thesis by auto
qed

theorem refill_failure_effects_witness:
  "drv_ok hdr_example (drv_example\<lparr>usb_out := []\<rparr>)
   \<and> drv_ok hdr_example (drv_latched\<lparr>isDeviceOpPending := True\<rparr>)
   \<and> fst (rcv_exchange hdr_example (drv_example\<lparr>usb_out := []\<rparr>)) = - 110
   \<and> fst (rcv_rnd_bytes hdr_example (drv_example\<lparr>usb_out := []\<rparr>)) = - 110
   \<and> buffTRndOut (snd (rcv_rnd_bytes hdr_example (drv_example\<lparr>usb_out := []\<rparr>))) = replicate 32 170
   \<and> curTrngOutIdx (snd (rcv_rnd_bytes hdr_example (drv_example\<lparr>usb_out := []\<rparr>))) = 32
   \<and> fst (rcv_exchange hdr_example (drv_latched\<lparr>isDeviceOpPending := True\<rparr>)) = SUCCESS
   \<and> fst (rcv_rnd_bytes hdr_example (drv_latched\<lparr>isDeviceOpPending := True\<rparr>)) = - EPERM
   \<and> rct_statusByte
         (rct (snd (rcv_rnd_bytes hdr_example (drv_latched\<lparr>isDeviceOpPending := True\<rparr>)))) = 1"
proof -
  have a: "drv_ok hdr_example (drv_example\<lparr>usb_out := []\<rparr>)" by code_simp
  have b: "drv_ok hdr_example (drv_latched\<lparr>isDeviceOpPending := True\<rparr>)" by code_simp
  have c: "fst (rcv_exchange hdr_example (drv_example\<lparr>usb_out := []\<rparr>)) = - 110" by code_simp
  have d: "isEntropySrcRdy (drv_example\<lparr>usb_out := []\<rparr>)" "\<not> isShutDown (drv_example\<lparr>usb_out := []\<rparr>)"
    "buffTRndOut (drv_example\<lparr>usb_out := []\<rparr>) = replicate 32 170"
    "curTrngOutIdx (drv_example\<lparr>usb_out := []\<rparr>) = 32"
    by (simp_all add: drv_example_def)
  from refill_failure_effects [OF a prod.collapse [symmetric]]
       refill_failure_effects [OF b prod.collapse [symmetric]]
       a b c d
  show ?thesis
    by (simp add: refill_example exchange_example SUCCESS_def EPERM_def)
       (simp add: drv_refilled_def)
qed

section \<open>The serial number\<close>

lemma stamp_all_Cons:
  "stamp_all h (b # bs) sn =
     (b[MIN_INPUT_NUM_WORDS h := sn] # fst (stamp_all h bs (sn + 1)), snd (stamp_all h bs (sn + 1)))"
  by (simp add: sha256_stampSerialNumber_def split: prod.splits)

lemma stamp_all_serial:
  "snd (stamp_all h bs sn) = sn + of_nat (length bs) \<and> length (fst (stamp_all h bs sn)) = length bs"
  by (induction bs arbitrary: sn) (simp_all add: stamp_all_Cons add.assoc del: stamp_all.simps(2))

lemma stamp_all_nth:
  "i < length bs \<Longrightarrow>
     fst (stamp_all h bs sn) ! i = (bs ! i)[MIN_INPUT_NUM_WORDS h := sn + of_nat i]"
proof (induction bs arbitrary: sn i)
  case Nil
  then show ?case by simp
next
  case (Cons b bs)
  show ?case
  proof (cases i)
    case 0
    then show ?thesis by (simp add: stamp_all_Cons del: stamp_all.simps(2))
  next
    case (Suc j)
    with Cons.prems have "j < length bs" by simp
    from Cons.IH[OF this, of "sn + 1"] Suc show ?thesis
      by (simp add: stamp_all_Cons add.assoc del: stamp_all.simps(2))
  qed
qed

lemma serial_distinct:
  fixes sn :: u32
  assumes "a < b" "b - a < 2 ^ 32"
  shows "sn + of_nat a \<noteq> sn + of_nat b"
proof
  assume "sn + of_nat a = sn + of_nat b"
  then have "(of_nat b :: u32) - of_nat a = 0" by simp
  moreover have "(of_nat b :: u32) - of_nat a = of_nat (b - a)"
    using assms(1) by simp
  ultimately have "(of_nat (b - a) :: u32) = 0" by simp
  then have "2 ^ 32 dvd b - a" by (simp add: word_of_nat_eq_0_iff)
  with assms show False by (auto dest: dvd_imp_le)
qed

lemma condition_loop_serial:
  "0 < MIN_INPUT_NUM_WORDS h \<Longrightarrow> MIN_INPUT_NUM_WORDS h dvd RND_IN_BUFFSIZE h div WORD_SIZE_BYTES h \<Longrightarrow>
   MIN_INPUT_NUM_WORDS h dvd i \<Longrightarrow> i \<le> RND_IN_BUFFSIZE h div WORD_SIZE_BYTES h \<Longrightarrow>
     blockSerialNumber (condition_loop h s i dst) =
       blockSerialNumber s
         + of_nat ((RND_IN_BUFFSIZE h div WORD_SIZE_BYTES h - i) div MIN_INPUT_NUM_WORDS h)"
proof (induction h s i dst rule: condition_loop.induct)
  case (1 h s i dst)
  let ?N = "RND_IN_BUFFSIZE h div WORD_SIZE_BYTES h" and ?m = "MIN_INPUT_NUM_WORDS h"
  show ?case
  proof (cases "i < ?N")
    case False
    with "1.prems" have "i = ?N" by simp
    then show ?thesis using condition_loop_stop[of i h s dst] by simp
  next
    case True
    from "1.prems"(2) obtain p where p: "?N = ?m * p" by (rule dvdE)
    from "1.prems"(3) obtain q where q: "i = ?m * q" by (rule dvdE)
    note pq = p q
    with True "1.prems"(1) have "q < p" by simp
    then have "Suc q \<le> p" by simp
    then have le: "i + ?m \<le> ?N" using pq by (metis mult_Suc_right mult_le_mono2 add.commute)
    have dv: "?m dvd i + ?m" using "1.prems"(3) by simp
    have "(?N - i) div ?m = Suc ((?N - (i + ?m)) div ?m)"
    proof -
      have "?N - i = (?N - (i + ?m)) + ?m" using le by simp
      then show ?thesis using "1.prems"(1) by (metis div_add_self2 Suc_eq_plus1 less_numeral_extra(3))
    qed
    with "1.IH"[OF _ "1.prems"(1,2) dv le] True "1.prems"(1)
    show ?thesis by (simp add: condition_loop_unfold)
  qed
qed

lemma condition_block_serial:
  assumes "hdr_ok h"
  shows "blockSerialNumber (condition_block h s) =
           blockSerialNumber s + of_nat (RND_IN_BUFFSIZE h div 4 div MIN_INPUT_NUM_WORDS h)"
proof -
  from assms have a: "0 < MIN_INPUT_NUM_WORDS h" "WORD_SIZE_BYTES h = 4"
    "MIN_INPUT_NUM_WORDS h dvd RND_IN_BUFFSIZE h div WORD_SIZE_BYTES h"
    by (simp_all add: hdr_ok_def)
  from condition_loop_serial[OF a(1) a(3), of 0 "s\<lparr>rct := rct_restart (rct s), apt := apt_restart (apt s)\<rparr>" 0] a(2)
  show ?thesis by (simp add: condition_block_def)
qed

lemma length_round_step [simp]: "length (round_step kt w v t) = length v"
  by (simp add: round_step_def Let_def split: list.splits)

lemma length_foldl_round_step [simp]: "length (foldl (round_step kt w) v ts) = length v"
  by (induction ts arbitrary: v) simp_all

lemma length_hashCurrentBlock [simp]: "length (sha256_hashCurrentBlock kt hs w16) = length hs"
  by (simp add: sha256_hashCurrentBlock_def Let_def)

lemma length_foldl_hashCurrentBlock [simp]:
  "length (foldl (\<lambda>hs b. sha256_hashCurrentBlock kt hs (f b)) hs bs) = length hs"
  by (induction bs arbitrary: hs) simp_all

lemma generateHash_Some:
  "0 < sint len \<Longrightarrow> \<exists>d. sha256_generateHash kt src len = Some d \<and> length d = 8"
  by (simp add: sha256_generateHash_def Let_def sha256_initialize_def)

lemma sint_len16:
  "m < 32767 \<Longrightarrow> sint (word_of_nat (m + 1) :: 16 word) = int m + 1"
proof -
  assume m: "m < 32767"
  have "sint (word_of_nat (m + 1) :: 16 word) = signed_take_bit 15 (int (m + 1))"
    by (simp only: signed_of_nat) simp
  also have "\<dots> = int (m + 1)"
    using m by (intro signed_take_bit_int_eq_self) simp_all
  finally show ?thesis by simp
qed

lemma length_concat_word_bytes [simp]: "length (concat (map word_bytes d)) = 4 * length d"
  by (induction d) (simp_all add: word_bytes_def)

lemma seg_write_at:
  assumes "length bs = 32" "32 * q0 + 32 \<le> length buf"
  shows "take 32 (drop (32 * q) (write_at buf (32 * q0) bs))
           = (if q = q0 then bs else take 32 (drop (32 * q) buf))"
proof (rule nth_equalityI)
  show "length (take 32 (drop (32 * q) (write_at buf (32 * q0) bs)))
          = length (if q = q0 then bs else take 32 (drop (32 * q) buf))"
    using assms by auto
next
  fix i assume "i < length (take 32 (drop (32 * q) (write_at buf (32 * q0) bs)))"
  then have i: "i < 32" "32 * q + i < length buf" by auto
  have "write_at buf (32 * q0) bs ! (32 * q + i) =
          (if 32 * q0 \<le> 32 * q + i \<and> 32 * q + i < 32 * q0 + length bs
           then bs ! (32 * q + i - 32 * q0) else buf ! (32 * q + i))"
    using assms by (intro nth_write_at) simp
  moreover have "(32 * q0 \<le> 32 * q + i \<and> 32 * q + i < 32 * q0 + 32) = (q = q0)"
    using i(1) by auto
  ultimately show "take 32 (drop (32 * q) (write_at buf (32 * q0) bs)) ! i
          = (if q = q0 then bs else take 32 (drop (32 * q) buf)) ! i"
    using i assms by auto
qed

lemma condition_loop_foldl:
  assumes ok: "hdr_ok h"
  shows "q0 \<le> RND_IN_BUFFSIZE h div 4 div MIN_INPUT_NUM_WORDS h \<Longrightarrow>
     condition_loop h s (MIN_INPUT_NUM_WORDS h * q0) (8 * q0) =
       foldl (\<lambda>s q. condition_step h s (MIN_INPUT_NUM_WORDS h * q) (8 * q)) s
         [q0..<RND_IN_BUFFSIZE h div 4 div MIN_INPUT_NUM_WORDS h]"
proof (induction "RND_IN_BUFFSIZE h div 4 div MIN_INPUT_NUM_WORDS h - q0" arbitrary: q0 s)
  case 0
  let ?m = "MIN_INPUT_NUM_WORDS h" and ?n = "RND_IN_BUFFSIZE h div 4 div MIN_INPUT_NUM_WORDS h"
  from ok have w: "WORD_SIZE_BYTES h = 4" and m: "0 < ?m" and d: "?m dvd RND_IN_BUFFSIZE h div 4"
    by (simp_all add: hdr_ok_def)
  from d have N: "RND_IN_BUFFSIZE h div 4 = ?m * ?n" by simp
  from 0 have q: "q0 = ?n" by simp
  have "\<not> (?m * q0 < RND_IN_BUFFSIZE h div WORD_SIZE_BYTES h \<and> 0 < ?m)"
    using q w N by simp
  from condition_loop_stop [OF this] q show ?case by simp
next
  case (Suc k)
  let ?m = "MIN_INPUT_NUM_WORDS h" and ?n = "RND_IN_BUFFSIZE h div 4 div MIN_INPUT_NUM_WORDS h"
  from ok have w: "WORD_SIZE_BYTES h = 4" and m: "0 < ?m" and d: "?m dvd RND_IN_BUFFSIZE h div 4"
    and o: "OUT_NUM_WORDS h = 8"
    by (simp_all add: hdr_ok_def)
  from d have N: "RND_IN_BUFFSIZE h div 4 = ?m * ?n" by simp
  from Suc.hyps(2) have q: "q0 < ?n" by simp
  then have "?m * q0 < ?m * ?n" using m by simp
  then have lt: "?m * q0 < RND_IN_BUFFSIZE h div WORD_SIZE_BYTES h"
    by (simp only: w N [symmetric])
  have k: "k = ?n - Suc q0" using Suc.hyps(2) by simp
  have le: "Suc q0 \<le> ?n" using q by simp
  have u: "[q0..<?n] = q0 # [Suc q0..<?n]" using q by (simp add: upt_conv_Cons)
  have "condition_loop h s (?m * q0) (8 * q0) =
          condition_loop h (condition_step h s (?m * q0) (8 * q0)) (?m * Suc q0) (8 * Suc q0)"
  proof -
    have e: "?m * q0 + ?m = ?m * Suc q0" "8 * q0 + OUT_NUM_WORDS h = 8 * Suc q0"
      using o by simp_all
    show ?thesis
      using condition_loop_unfold [OF lt m, of s "8 * q0"] by (simp only: e)
  qed
  also have "\<dots> = foldl (\<lambda>s q. condition_step h s (?m * q) (8 * q))
                      (condition_step h s (?m * q0) (8 * q0)) [Suc q0..<?n]"
    by (rule Suc.hyps(1) [OF k le])
  finally show ?case by (simp only: u foldl_Cons)
qed

lemma length_raw_block [simp]: "length (raw_block h buf q) = MIN_INPUT_NUM_WORDS h"
  by (simp add: raw_block_def)

lemma hash_inputs_nth:
  "q < RND_IN_BUFFSIZE h div WORD_SIZE_BYTES h div MIN_INPUT_NUM_WORDS h \<Longrightarrow>
     hash_inputs h s ! q = raw_block h (buffRndIn s) q @ [blockSerialNumber s + of_nat q]"
proof -
  assume q: "q < RND_IN_BUFFSIZE h div WORD_SIZE_BYTES h div MIN_INPUT_NUM_WORDS h"
  have "(raw_block h (buffRndIn s) q @ [0])[length (raw_block h (buffRndIn s) q)
            := blockSerialNumber s + of_nat q]
          = raw_block h (buffRndIn s) q @ [blockSerialNumber s + of_nat q]"
    by (rule list_update_length)
  with q show ?thesis by (simp add: hash_inputs_def stamp_all_nth)
qed

lemma condition_step_at:
  assumes l: "length (srcToHash s) = MIN_INPUT_NUM_WORDS h + 1"
  shows "srcToHash (condition_step h s (MIN_INPUT_NUM_WORDS h * q) dst)
           = raw_block h (buffRndIn s) q @ [blockSerialNumber s]"
    and "buffTRndOut (condition_step h s (MIN_INPUT_NUM_WORDS h * q) dst)
           = (case sha256_generateHash (k_table h)
                     (raw_block h (buffRndIn s) q @ [blockSerialNumber s])
                     (word_of_nat (MIN_INPUT_NUM_WORDS h + 1)) of
                None \<Rightarrow> buffTRndOut s
              | Some d \<Rightarrow> write_at (buffTRndOut s) (4 * dst) (concat (map word_bytes d)))"
proof -
  from l have d: "drop (MIN_INPUT_NUM_WORDS h) (srcToHash s) = [last (srcToHash s)]"
    by (metis Suc_eq_plus1 append_butlast_last_id append_eq_conv_conj diff_add_inverse2
          length_0_conv length_butlast nat.simps(3))
  show a: "srcToHash (condition_step h s (MIN_INPUT_NUM_WORDS h * q) dst)
           = raw_block h (buffRndIn s) q @ [blockSerialNumber s]"
    by (simp add: condition_step_def sha256_stampSerialNumber_def Let_def d list_update_append
          raw_block_def)
  have "buffTRndOut (condition_step h s (MIN_INPUT_NUM_WORDS h * q) dst)
           = (case sha256_generateHash (k_table h)
                     (srcToHash (condition_step h s (MIN_INPUT_NUM_WORDS h * q) dst))
                     (word_of_nat (MIN_INPUT_NUM_WORDS h + 1)) of
                None \<Rightarrow> buffTRndOut s
              | Some d \<Rightarrow> write_at (buffTRndOut s) (4 * dst) (concat (map word_bytes d)))"
    by (simp add: condition_step_def sha256_stampSerialNumber_def Let_def)
  then show "buffTRndOut (condition_step h s (MIN_INPUT_NUM_WORDS h * q) dst)
           = (case sha256_generateHash (k_table h)
                     (raw_block h (buffRndIn s) q @ [blockSerialNumber s])
                     (word_of_nat (MIN_INPUT_NUM_WORDS h + 1)) of
                None \<Rightarrow> buffTRndOut s
              | Some d \<Rightarrow> write_at (buffTRndOut s) (4 * dst) (concat (map word_bytes d)))"
    by (simp only: a)
qed

lemma condition_prefix:
  assumes ok: "hdr_ok h" and l: "length (srcToHash s) = MIN_INPUT_NUM_WORDS h + 1"
    and lo: "length (buffTRndOut s) = TRND_OUT_BUFFSIZE h"
    and m16: "MIN_INPUT_NUM_WORDS h < 32767"
  shows "k \<le> RND_IN_BUFFSIZE h div 4 div MIN_INPUT_NUM_WORDS h \<Longrightarrow>
     blockSerialNumber (foldl (\<lambda>s q. condition_step h s (MIN_INPUT_NUM_WORDS h * q) (8 * q)) s [0..<k])
       = blockSerialNumber s + of_nat k
     \<and> buffRndIn (foldl (\<lambda>s q. condition_step h s (MIN_INPUT_NUM_WORDS h * q) (8 * q)) s [0..<k])
       = buffRndIn s
     \<and> length (srcToHash (foldl (\<lambda>s q. condition_step h s (MIN_INPUT_NUM_WORDS h * q) (8 * q)) s [0..<k]))
       = MIN_INPUT_NUM_WORDS h + 1
     \<and> length (buffTRndOut (foldl (\<lambda>s q. condition_step h s (MIN_INPUT_NUM_WORDS h * q) (8 * q)) s [0..<k]))
       = TRND_OUT_BUFFSIZE h
     \<and> (\<forall>q<k. case sha256_generateHash (k_table h) (hash_inputs h s ! q)
                      (word_of_nat (MIN_INPUT_NUM_WORDS h + 1)) of
                 None \<Rightarrow> False
               | Some d \<Rightarrow>
                   take 32 (drop (32 * q)
                     (buffTRndOut (foldl (\<lambda>s q. condition_step h s (MIN_INPUT_NUM_WORDS h * q) (8 * q)) s [0..<k])))
                   = concat (map word_bytes d))
     \<and> (\<forall>q\<ge>k. take 32 (drop (32 * q)
                     (buffTRndOut (foldl (\<lambda>s q. condition_step h s (MIN_INPUT_NUM_WORDS h * q) (8 * q)) s [0..<k])))
               = take 32 (drop (32 * q) (buffTRndOut s)))"
proof (induction k)
  case 0
  show ?case using l lo by simp
next
  case (Suc k)
  let ?m = "MIN_INPUT_NUM_WORDS h" and ?n = "RND_IN_BUFFSIZE h div 4 div MIN_INPUT_NUM_WORDS h"
  let ?len = "word_of_nat (MIN_INPUT_NUM_WORDS h + 1) :: 16 word"
  define t where "t = foldl (\<lambda>s q. condition_step h s (?m * q) (8 * q)) s [0..<k]"
  define t' where "t' = condition_step h t (?m * k) (8 * k)"
  have t': "foldl (\<lambda>s q. condition_step h s (?m * q) (8 * q)) s [0..<Suc k] = t'"
    by (simp add: t_def t'_def)
  from Suc.prems have kn: "k < ?n" and kle: "k \<le> ?n" by simp_all
  from ok have w: "WORD_SIZE_BYTES h = 4" and fit: "?n * 32 \<le> TRND_OUT_BUFFSIZE h"
    by (simp_all add: hdr_ok_def)
  note ih = Suc.IH [OF kle, folded t_def]
  from ih have sn: "blockSerialNumber t = blockSerialNumber s + of_nat k"
    and bi: "buffRndIn t = buffRndIn s"
    and ls: "length (srcToHash t) = ?m + 1"
    and lt: "length (buffTRndOut t) = TRND_OUT_BUFFSIZE h"
    and dn: "\<And>q. q < k \<Longrightarrow>
        (case sha256_generateHash (k_table h) (hash_inputs h s ! q) ?len of
           None \<Rightarrow> False
         | Some d \<Rightarrow> take 32 (drop (32 * q) (buffTRndOut t)) = concat (map word_bytes d))"
    and rest: "\<And>q. k \<le> q \<Longrightarrow>
        take 32 (drop (32 * q) (buffTRndOut t)) = take 32 (drop (32 * q) (buffTRndOut s))"
    by simp_all
  have inp: "raw_block h (buffRndIn t) k @ [blockSerialNumber t] = hash_inputs h s ! k"
    using kn by (simp add: hash_inputs_nth w sn bi)
  have pos: "0 < sint ?len" using sint_len16 [OF m16] by simp
  from generateHash_Some [OF pos] obtain d where
    d: "sha256_generateHash (k_table h) (hash_inputs h s ! k) ?len = Some d" "length d = 8"
    by blast
  have src: "srcToHash t' = hash_inputs h s ! k"
    unfolding t'_def using condition_step_at(1) [OF ls, of k "8 * k"] inp by simp
  have out: "buffTRndOut t' = write_at (buffTRndOut t) (32 * k) (concat (map word_bytes d))"
    unfolding t'_def using condition_step_at(2) [OF ls, of k "8 * k"] inp d by simp
  have room: "32 * k + 32 \<le> length (buffTRndOut t)"
    using kn fit lt by simp
  have lb: "length (concat (map word_bytes d)) = 32" using d by simp
  have seg: "\<And>q. take 32 (drop (32 * q) (buffTRndOut t'))
                 = (if q = k then concat (map word_bytes d) else take 32 (drop (32 * q) (buffTRndOut t)))"
    unfolding out by (rule seg_write_at [OF lb room])
  have c1: "blockSerialNumber t' = blockSerialNumber s + of_nat (Suc k)"
    by (simp add: t'_def sn)
  have c2: "buffRndIn t' = buffRndIn s" by (simp add: t'_def bi)
  have c3: "length (srcToHash t') = ?m + 1" using src kn by (simp add: hash_inputs_nth w)
  have c4: "length (buffTRndOut t') = TRND_OUT_BUFFSIZE h" by (simp add: t'_def lt)
  have c5: "\<forall>q<Suc k. case sha256_generateHash (k_table h) (hash_inputs h s ! q) ?len of
                 None \<Rightarrow> False
               | Some d \<Rightarrow> take 32 (drop (32 * q) (buffTRndOut t')) = concat (map word_bytes d)"
  proof (intro allI impI)
    fix q assume "q < Suc k"
    then consider "q = k" | "q < k" by linarith
    then show "case sha256_generateHash (k_table h) (hash_inputs h s ! q) ?len of
                 None \<Rightarrow> False
               | Some d \<Rightarrow> take 32 (drop (32 * q) (buffTRndOut t')) = concat (map word_bytes d)"
    proof cases
      case 1
      have "take 32 (drop (32 * k) (buffTRndOut t')) = concat (map word_bytes d)"
        by (simp add: seg)
      then show ?thesis unfolding 1 d(1) by simp
    next
      case 2
      with dn [OF 2] show ?thesis by (simp add: seg split: option.splits)
    qed
  qed
  have c6: "\<forall>q\<ge>Suc k. take 32 (drop (32 * q) (buffTRndOut t'))
               = take 32 (drop (32 * q) (buffTRndOut s))"
    by (simp add: seg rest)
  from c1 c2 c3 c4 c5 c6 show ?case by (simp only: t' simp_thms)
qed

lemma condition_block_digests:
  assumes ok: "hdr_ok h" and l: "length (srcToHash s) = MIN_INPUT_NUM_WORDS h + 1"
    and lo: "length (buffTRndOut s) = TRND_OUT_BUFFSIZE h"
    and m16: "MIN_INPUT_NUM_WORDS h < 32767"
    and q: "q < RND_IN_BUFFSIZE h div WORD_SIZE_BYTES h div MIN_INPUT_NUM_WORDS h"
  shows "case sha256_generateHash (k_table h) (hash_inputs h s ! q)
                (word_of_nat (MIN_INPUT_NUM_WORDS h + 1)) of
           None \<Rightarrow> False
         | Some d \<Rightarrow> take 32 (drop (32 * q) (buffTRndOut (condition_block h s)))
                       = concat (map word_bytes d)"
proof -
  let ?s = "s\<lparr>rct := rct_restart (rct s), apt := apt_restart (apt s)\<rparr>"
  let ?n = "RND_IN_BUFFSIZE h div 4 div MIN_INPUT_NUM_WORDS h"
  from ok have w: "WORD_SIZE_BYTES h = 4" by (simp add: hdr_ok_def)
  have hi: "hash_inputs h ?s = hash_inputs h s" by (simp add: hash_inputs_def)
  have cb: "condition_block h s =
              foldl (\<lambda>s q. condition_step h s (MIN_INPUT_NUM_WORDS h * q) (8 * q)) ?s [0..<?n]"
    using condition_loop_foldl [OF ok, of 0 ?s] by (simp add: condition_block_def)
  have l': "length (srcToHash ?s) = MIN_INPUT_NUM_WORDS h + 1" using l by simp
  have lo': "length (buffTRndOut ?s) = TRND_OUT_BUFFSIZE h" using lo by simp
  from q w have q': "q < ?n" by simp
  from condition_prefix [OF ok l' lo' m16, of ?n] q'
  show ?thesis by (simp only: cb hi)
qed

lemma rcv_rnd_bytes_conditioned:
  assumes rr: "rcv_rnd_bytes h s = (r, s')"
    and rdy: "isEntropySrcRdy s" "\<not> isShutDown s"
    and e: "rcv_exchange h s = (SUCCESS, s4)"
  shows "buffTRndOut s' = buffTRndOut (condition_block h s4)
     \<and> blockSerialNumber s4 = blockSerialNumber s \<and> srcToHash s4 = srcToHash s
     \<and> buffTRndOut s4 = buffTRndOut s"
proof -
  define s7 where "s7 = (condition_block h s4)\<lparr>curTrngOutIdx := 0\<rparr>"
  from rr rdy e have s': "s' = (sample_block h s7)\<lparr>isUsbOpPending := False\<rparr>"
    by (auto simp: rcv_rnd_bytes_def Let_def s7_def)
  have "buffTRndOut s' = buffTRndOut (condition_block h s4)"
    using s' sample_block_fields[of h s7] by (simp add: s7_def)
  with rcv_exchange_frame [OF e] show ?thesis by simp
qed

lemma stamp_all_append:
  "fst (stamp_all h (bs1 @ bs2) sn)
     = fst (stamp_all h bs1 sn) @ fst (stamp_all h bs2 (sn + of_nat (length bs1)))"
  by (induction bs1 arbitrary: sn)
     (simp_all add: stamp_all_Cons add.assoc del: stamp_all.simps(2))

lemma serial_eq_iff:
  fixes sn :: u32
  assumes "a \<le> b"
  shows "(sn + of_nat a = sn + of_nat b) = (2 ^ 32 dvd b - a)"
proof -
  have "(sn + of_nat a = sn + of_nat b) = ((of_nat b :: u32) - of_nat a = 0)" by auto
  also have "(of_nat b :: u32) - of_nat a = of_nat (b - a)" using assms by simp
  also have "((of_nat (b - a) :: u32) = 0) = (2 ^ 32 dvd b - a)"
    by (simp add: word_of_nat_eq_0_iff)
  finally show ?thesis .
qed

lemma stamped_eq_iff:
  assumes "a \<le> b" "b < length bs"
    and la: "length (bs ! a) = MIN_INPUT_NUM_WORDS h + 1"
    and lb: "length (bs ! b) = MIN_INPUT_NUM_WORDS h + 1"
  shows "(fst (stamp_all h bs sn) ! a = fst (stamp_all h bs sn) ! b)
           = (take (MIN_INPUT_NUM_WORDS h) (bs ! a) = take (MIN_INPUT_NUM_WORDS h) (bs ! b)
              \<and> 2 ^ 32 dvd b - a)"
proof -
  let ?m = "MIN_INPUT_NUM_WORDS h"
  have u: "\<And>xs (v::u32). length xs = ?m + 1 \<Longrightarrow> xs[?m := v] = take ?m xs @ [v]"
    by (simp add: upd_conv_take_nth_drop)
  from assms have n: "fst (stamp_all h bs sn) ! a = take ?m (bs ! a) @ [sn + of_nat a]"
      "fst (stamp_all h bs sn) ! b = take ?m (bs ! b) @ [sn + of_nat b]"
    by (simp_all add: stamp_all_nth u)
  show ?thesis
    unfolding n using serial_eq_iff [OF assms(1), of sn] by simp
qed

text \<open>
  C7, as stated, fails: the counter is a 32-bit word, so the sub-block hashed
  \<open>2 ^ 32\<close> sub-blocks after another one gets the same serial number; when the raw
  words repeat as well, the two hash inputs are the same. In the driver the counter
  steps from \<open>2 ^ 32 - 1\<close> to 0.
\<close>

theorem serial_repeats_after_wrap:
  "fst (stamp_all hdr_example (replicate (2 ^ 32 + 1) (replicate 11 0)) 413145) ! 0
   = fst (stamp_all hdr_example (replicate (2 ^ 32 + 1) (replicate 11 0)) 413145) ! (2 ^ 32)
   \<and> blockSerialNumber (condition_step hdr_example (drv_example\<lparr>blockSerialNumber := 4294967295\<rparr>) 0 0) = 0"
proof -
  have "(of_nat (2 ^ 32) :: u32) = 0" by simp
  then show ?thesis by (simp add: stamp_all_nth del: of_nat_power of_nat_numeral)
qed

text \<open>
  C7, amended. For every sub-block hashed during conditioning the hash input is the
  sub-block's raw words followed by the value of the serial counter, the digest of
  that input is what is stored, and the counter then is 1 more (modulo \<open>2 ^ 32\<close>).
  Within one refill, with a sub-block length that fits the \<^verbatim>\<open>int16_t\<close> length
  parameter of the hash, sub-block \<open>q\<close> of the raw block is hashed with the counter
  the refill started with plus \<open>q\<close>, its digest is stored in the bytes \<open>32 q\<close> to
  \<open>32 q + 31\<close> of the output block, and the counter is left advanced by the number
  of sub-blocks. \<^verbatim>\<open>rcv_rnd_bytes\<close> conditions the block it received with the counter it
  was called with and hands out that output block and that counter; a refill that
  fails before conditioning leaves the counter alone: nothing resets it. The hash
  inputs of successive refills continue one numbering, and two inputs of that
  numbering are the same exactly when their raw words are the same and their
  positions are a multiple of \<open>2 ^ 32\<close> sub-blocks apart. So hash inputs less than
  \<open>2 ^ 32\<close> sub-blocks apart differ, even if the raw bytes repeat.
\<close>

theorem serial_stamping:
  "(length (srcToHash s) = MIN_INPUT_NUM_WORDS h + 1 \<longrightarrow>
      srcToHash (condition_step h s i dst)
        = map (\<lambda>j. load_word (buffRndIn s) (i + j)) [0..<MIN_INPUT_NUM_WORDS h]
            @ [blockSerialNumber s]
      \<and> buffTRndOut (condition_step h s i dst)
        = (case sha256_generateHash (k_table h) (srcToHash (condition_step h s i dst))
                  (word_of_nat (MIN_INPUT_NUM_WORDS h + 1)) of
             None \<Rightarrow> buffTRndOut s
           | Some d \<Rightarrow> write_at (buffTRndOut s) (4 * dst) (concat (map word_bytes d)))
      \<and> blockSerialNumber (condition_step h s i dst) = blockSerialNumber s + 1)
   \<and> (hdr_ok h \<and> length (srcToHash s) = MIN_INPUT_NUM_WORDS h + 1
        \<and> length (buffTRndOut s) = TRND_OUT_BUFFSIZE h \<and> MIN_INPUT_NUM_WORDS h < 32767
        \<and> q < RND_IN_BUFFSIZE h div WORD_SIZE_BYTES h div MIN_INPUT_NUM_WORDS h \<longrightarrow>
        hash_inputs h s ! q = raw_block h (buffRndIn s) q @ [blockSerialNumber s + of_nat q]
        \<and> (case sha256_generateHash (k_table h) (hash_inputs h s ! q)
                   (word_of_nat (MIN_INPUT_NUM_WORDS h + 1)) of
              None \<Rightarrow> False
            | Some d \<Rightarrow> take 32 (drop (32 * q) (buffTRndOut (condition_block h s)))
                          = concat (map word_bytes d))
        \<and> blockSerialNumber (condition_block h s)
            = blockSerialNumber s
              + of_nat (RND_IN_BUFFSIZE h div WORD_SIZE_BYTES h div MIN_INPUT_NUM_WORDS h))
   \<and> (rcv_rnd_bytes h s = (r, s') \<and> isEntropySrcRdy s \<and> \<not> isShutDown s
        \<and> rcv_exchange h s = (SUCCESS, s4) \<longrightarrow>
        buffTRndOut s' = buffTRndOut (condition_block h s4)
        \<and> blockSerialNumber s' = blockSerialNumber (condition_block h s4)
        \<and> blockSerialNumber s4 = blockSerialNumber s \<and> srcToHash s4 = srcToHash s
        \<and> buffTRndOut s4 = buffTRndOut s)
   \<and> (drv_ok h s \<and> rcv_rnd_bytes h s = (r, s') \<longrightarrow>
        blockSerialNumber s'
          = blockSerialNumber s
            + (if isEntropySrcRdy s \<and> \<not> isShutDown s \<and> fst (rcv_exchange h s) = SUCCESS
               then of_nat (RND_IN_BUFFSIZE h div 4 div MIN_INPUT_NUM_WORDS h) else 0))
   \<and> fst (stamp_all h (bs1 @ bs2) sn)
       = fst (stamp_all h bs1 sn) @ fst (stamp_all h bs2 (sn + of_nat (length bs1)))
   \<and> (a \<le> b \<and> b < length bs \<and> length (bs ! a) = MIN_INPUT_NUM_WORDS h + 1
        \<and> length (bs ! b) = MIN_INPUT_NUM_WORDS h + 1 \<longrightarrow>
        (fst (stamp_all h bs sn) ! a = fst (stamp_all h bs sn) ! b)
          = (take (MIN_INPUT_NUM_WORDS h) (bs ! a) = take (MIN_INPUT_NUM_WORDS h) (bs ! b)
             \<and> 2 ^ 32 dvd b - a))"
proof -
  have p1: "srcToHash (condition_step h s i dst)
        = map (\<lambda>j. load_word (buffRndIn s) (i + j)) [0..<MIN_INPUT_NUM_WORDS h]
            @ [blockSerialNumber s]
      \<and> buffTRndOut (condition_step h s i dst)
        = (case sha256_generateHash (k_table h) (srcToHash (condition_step h s i dst))
                  (word_of_nat (MIN_INPUT_NUM_WORDS h + 1)) of
             None \<Rightarrow> buffTRndOut s
           | Some d \<Rightarrow> write_at (buffTRndOut s) (4 * dst) (concat (map word_bytes d)))
      \<and> blockSerialNumber (condition_step h s i dst) = blockSerialNumber s + 1"
    if l: "length (srcToHash s) = MIN_INPUT_NUM_WORDS h + 1"
  proof -
    from l have d: "drop (MIN_INPUT_NUM_WORDS h) (srcToHash s) = [last (srcToHash s)]"
      by (metis Suc_eq_plus1 append_butlast_last_id append_eq_conv_conj diff_add_inverse2
            length_0_conv length_butlast nat.simps(3))
    have a: "srcToHash (condition_step h s i dst)
          = map (\<lambda>j. load_word (buffRndIn s) (i + j)) [0..<MIN_INPUT_NUM_WORDS h]
              @ [blockSerialNumber s]"
      by (simp add: condition_step_def sha256_stampSerialNumber_def Let_def d list_update_append)
    have b: "buffTRndOut (condition_step h s i dst)
          = (case sha256_generateHash (k_table h) (srcToHash (condition_step h s i dst))
                    (word_of_nat (MIN_INPUT_NUM_WORDS h + 1)) of
               None \<Rightarrow> buffTRndOut s
             | Some d \<Rightarrow> write_at (buffTRndOut s) (4 * dst) (concat (map word_bytes d)))"
      by (simp add: condition_step_def sha256_stampSerialNumber_def Let_def)
    have c: "blockSerialNumber (condition_step h s i dst) = blockSerialNumber s + 1"
      by simp
    from a b c show ?thesis by (simp only: simp_thms)
  qed
  have p2: "hash_inputs h s ! q = raw_block h (buffRndIn s) q @ [blockSerialNumber s + of_nat q]
        \<and> (case sha256_generateHash (k_table h) (hash_inputs h s ! q)
                   (word_of_nat (MIN_INPUT_NUM_WORDS h + 1)) of
              None \<Rightarrow> False
            | Some d \<Rightarrow> take 32 (drop (32 * q) (buffTRndOut (condition_block h s)))
                          = concat (map word_bytes d))
        \<and> blockSerialNumber (condition_block h s)
            = blockSerialNumber s
              + of_nat (RND_IN_BUFFSIZE h div WORD_SIZE_BYTES h div MIN_INPUT_NUM_WORDS h)"
    if ok: "hdr_ok h" and l: "length (srcToHash s) = MIN_INPUT_NUM_WORDS h + 1"
      and lo: "length (buffTRndOut s) = TRND_OUT_BUFFSIZE h"
      and m16: "MIN_INPUT_NUM_WORDS h < 32767"
      and q: "q < RND_IN_BUFFSIZE h div WORD_SIZE_BYTES h div MIN_INPUT_NUM_WORDS h"
  proof -
    from ok have w: "WORD_SIZE_BYTES h = 4" by (simp add: hdr_ok_def)
    from hash_inputs_nth [OF q] condition_block_digests [OF ok l lo m16 q]
         condition_block_serial [OF ok, of s] w
    show ?thesis by (simp only: simp_thms)
  qed
  have p3: "buffTRndOut s' = buffTRndOut (condition_block h s4)
        \<and> blockSerialNumber s' = blockSerialNumber (condition_block h s4)
        \<and> blockSerialNumber s4 = blockSerialNumber s \<and> srcToHash s4 = srcToHash s
        \<and> buffTRndOut s4 = buffTRndOut s"
    if rr: "rcv_rnd_bytes h s = (r, s')" and rdy: "isEntropySrcRdy s" "\<not> isShutDown s"
      and e: "rcv_exchange h s = (SUCCESS, s4)"
  proof -
    define s7 where "s7 = (condition_block h s4)\<lparr>curTrngOutIdx := 0\<rparr>"
    from rr rdy e have s': "s' = (sample_block h s7)\<lparr>isUsbOpPending := False\<rparr>"
      by (auto simp: rcv_rnd_bytes_def Let_def s7_def)
    have "blockSerialNumber s' = blockSerialNumber (condition_block h s4)"
      using s' sample_block_fields[of h s7] by (simp add: s7_def)
    with rcv_rnd_bytes_conditioned [OF rr rdy e] show ?thesis by simp
  qed
  have p4: "blockSerialNumber s'
          = blockSerialNumber s
            + (if isEntropySrcRdy s \<and> \<not> isShutDown s \<and> fst (rcv_exchange h s) = SUCCESS
               then of_nat (RND_IN_BUFFSIZE h div 4 div MIN_INPUT_NUM_WORDS h) else 0)"
    if dk: "drv_ok h s" and rr: "rcv_rnd_bytes h s = (r, s')"
  proof (cases "isEntropySrcRdy s \<and> \<not> isShutDown s \<and> fst (rcv_exchange h s) = SUCCESS")
    case False
    with rcv_rnd_bytes_no_exchange[OF rr] show ?thesis by auto
  next
    case True
    from dk have ok: "hdr_ok h" by (simp add: drv_ok_def)
    obtain r0 s4 where e: "rcv_exchange h s = (r0, s4)" by (cases "rcv_exchange h s") auto
    define s7 where "s7 = (condition_block h s4)\<lparr>curTrngOutIdx := 0\<rparr>"
    from rr True e have "s' = (sample_block h s7)\<lparr>isUsbOpPending := False\<rparr>"
      by (auto simp: rcv_rnd_bytes_def Let_def s7_def)
    with sample_block_fields[of h s7] condition_block_serial[OF ok, of s4]
         rcv_exchange_frame[OF e] True
    show ?thesis by (simp add: s7_def)
  qed
  note p5 = stamp_all_append [of h bs1 bs2 sn]
  have p6: "(fst (stamp_all h bs sn) ! a = fst (stamp_all h bs sn) ! b)
          = (take (MIN_INPUT_NUM_WORDS h) (bs ! a) = take (MIN_INPUT_NUM_WORDS h) (bs ! b)
             \<and> 2 ^ 32 dvd b - a)"
    if "a \<le> b" "b < length bs" "length (bs ! a) = MIN_INPUT_NUM_WORDS h + 1"
       "length (bs ! b) = MIN_INPUT_NUM_WORDS h + 1"
    using that by (rule stamped_eq_iff)
  from p1 have q1: "length (srcToHash s) = MIN_INPUT_NUM_WORDS h + 1 \<longrightarrow>
      srcToHash (condition_step h s i dst)
        = map (\<lambda>j. load_word (buffRndIn s) (i + j)) [0..<MIN_INPUT_NUM_WORDS h]
            @ [blockSerialNumber s]
      \<and> buffTRndOut (condition_step h s i dst)
        = (case sha256_generateHash (k_table h) (srcToHash (condition_step h s i dst))
                  (word_of_nat (MIN_INPUT_NUM_WORDS h + 1)) of
             None \<Rightarrow> buffTRndOut s
           | Some d \<Rightarrow> write_at (buffTRndOut s) (4 * dst) (concat (map word_bytes d)))
      \<and> blockSerialNumber (condition_step h s i dst) = blockSerialNumber s + 1"
    by blast
  from p2 have q2: "hdr_ok h \<and> length (srcToHash s) = MIN_INPUT_NUM_WORDS h + 1
        \<and> length (buffTRndOut s) = TRND_OUT_BUFFSIZE h \<and> MIN_INPUT_NUM_WORDS h < 32767
        \<and> q < RND_IN_BUFFSIZE h div WORD_SIZE_BYTES h div MIN_INPUT_NUM_WORDS h \<longrightarrow>
        hash_inputs h s ! q = raw_block h (buffRndIn s) q @ [blockSerialNumber s + of_nat q]
        \<and> (case sha256_generateHash (k_table h) (hash_inputs h s ! q)
                   (word_of_nat (MIN_INPUT_NUM_WORDS h + 1)) of
              None \<Rightarrow> False
            | Some d \<Rightarrow> take 32 (drop (32 * q) (buffTRndOut (condition_block h s)))
                          = concat (map word_bytes d))
        \<and> blockSerialNumber (condition_block h s)
            = blockSerialNumber s
              + of_nat (RND_IN_BUFFSIZE h div WORD_SIZE_BYTES h div MIN_INPUT_NUM_WORDS h)"
    by blast
  from p3 have q3: "rcv_rnd_bytes h s = (r, s') \<and> isEntropySrcRdy s \<and> \<not> isShutDown s
        \<and> rcv_exchange h s = (SUCCESS, s4) \<longrightarrow>
        buffTRndOut s' = buffTRndOut (condition_block h s4)
        \<and> blockSerialNumber s' = blockSerialNumber (condition_block h s4)
        \<and> blockSerialNumber s4 = blockSerialNumber s \<and> srcToHash s4 = srcToHash s
        \<and> buffTRndOut s4 = buffTRndOut s"
    by blast
  from p4 have q4: "drv_ok h s \<and> rcv_rnd_bytes h s = (r, s') \<longrightarrow>
        blockSerialNumber s'
          = blockSerialNumber s
            + (if isEntropySrcRdy s \<and> \<not> isShutDown s \<and> fst (rcv_exchange h s) = SUCCESS
               then of_nat (RND_IN_BUFFSIZE h div 4 div MIN_INPUT_NUM_WORDS h) else 0)"
    by blast
  from p6 have q6: "a \<le> b \<and> b < length bs \<and> length (bs ! a) = MIN_INPUT_NUM_WORDS h + 1
        \<and> length (bs ! b) = MIN_INPUT_NUM_WORDS h + 1 \<longrightarrow>
        (fst (stamp_all h bs sn) ! a = fst (stamp_all h bs sn) ! b)
          = (take (MIN_INPUT_NUM_WORDS h) (bs ! a) = take (MIN_INPUT_NUM_WORDS h) (bs ! b)
             \<and> 2 ^ 32 dvd b - a)"
    by blast
  show ?thesis
    by (intro conjI) (rule q1 q2 q3 q4 p5 q6)+
qed

theorem serial_stamping_witness:
  "length (srcToHash drv_example) = MIN_INPUT_NUM_WORDS hdr_example + 1
   \<and> srcToHash (condition_step hdr_example drv_example 0 0)
       = [0, 0, 0, 0, 0, 0, 0, 0, 0, 0, 413145]
   \<and> blockSerialNumber (condition_step hdr_example drv_example 0 0) = 413146
   \<and> hdr_ok hdr_two \<and> length (srcToHash drv_two) = MIN_INPUT_NUM_WORDS hdr_two + 1
   \<and> length (buffTRndOut drv_two) = TRND_OUT_BUFFSIZE hdr_two
   \<and> MIN_INPUT_NUM_WORDS hdr_two < 32767
   \<and> 1 < RND_IN_BUFFSIZE hdr_two div WORD_SIZE_BYTES hdr_two div MIN_INPUT_NUM_WORDS hdr_two
   \<and> hash_inputs hdr_two drv_two = [replicate 10 0 @ [413145], replicate 10 0 @ [413146]]
   \<and> (case sha256_generateHash (k_table hdr_two) (replicate 10 0 @ [413146])
              (word_of_nat (MIN_INPUT_NUM_WORDS hdr_two + 1)) of
         None \<Rightarrow> False
       | Some d \<Rightarrow> take 32 (drop (32 * 1) (buffTRndOut (condition_block hdr_two drv_two)))
                     = concat (map word_bytes d))
   \<and> blockSerialNumber (condition_block hdr_two drv_two) = 413147
   \<and> drv_ok hdr_example (drv_latched\<lparr>isDeviceOpPending := True\<rparr>)
   \<and> rcv_rnd_bytes hdr_example (drv_latched\<lparr>isDeviceOpPending := True\<rparr>)
       = (- 1, drv_refilled\<lparr>isDeviceOpPending := True\<rparr>)
   \<and> rcv_exchange hdr_example (drv_latched\<lparr>isDeviceOpPending := True\<rparr>) = (SUCCESS, drv_exchanged)
   \<and> hash_inputs hdr_example drv_exchanged = [replicate 10 0 @ [413145]]
   \<and> take 32 (drop (32 * 0) (buffTRndOut (condition_block hdr_example drv_exchanged)))
       = concat (map word_bytes [3283306696, 2183399749, 2762730705, 493944639,
                                 1760801533, 1529333858, 676896189, 386078000])
   \<and> buffTRndOut (drv_refilled\<lparr>isDeviceOpPending := True\<rparr>)
       = buffTRndOut (condition_block hdr_example drv_exchanged)
   \<and> blockSerialNumber (drv_refilled\<lparr>isDeviceOpPending := True\<rparr>) = 413146
   \<and> fst (stamp_all hdr_example [replicate 11 0, replicate 11 0] 413145) ! 0
       \<noteq> fst (stamp_all hdr_example [replicate 11 0, replicate 11 0] 413145) ! 1"
proof -
  note t1 = serial_stamping
         [where s = drv_example and h = hdr_example and i = 0 and dst = 0
            and a = 0 and b = 1 and bs = "[replicate 11 0, replicate 11 0]" and sn = 413145]
  note t2 = serial_stamping [where s = drv_two and h = hdr_two and q = 1]
  note t3 = serial_stamping
         [where s = "drv_latched\<lparr>isDeviceOpPending := True\<rparr>" and h = hdr_example
            and r = "- 1" and s' = "drv_refilled\<lparr>isDeviceOpPending := True\<rparr>"
            and ?s4.0 = drv_exchanged]
  note t4 = serial_stamping [where s = drv_exchanged and h = hdr_example and q = 0]
  have a: "length (srcToHash drv_example) = MIN_INPUT_NUM_WORDS hdr_example + 1"
    by (simp add: drv_example_def hdr_example_def)
  have d: "map (\<lambda>j. load_word (buffRndIn drv_example) (0 + j)) [0..<MIN_INPUT_NUM_WORDS hdr_example]
             @ [blockSerialNumber drv_example] = [0, 0, 0, 0, 0, 0, 0, 0, 0, 0, 413145]"
    by code_simp
  have e: "blockSerialNumber drv_example = 413145" by (simp add: drv_example_def)
  from t1 [THEN conjunct1] a d e have c1:
    "srcToHash (condition_step hdr_example drv_example 0 0) = [0, 0, 0, 0, 0, 0, 0, 0, 0, 0, 413145]
     \<and> blockSerialNumber (condition_step hdr_example drv_example 0 0) = 413146"
    by simp
  have b1: "hdr_ok hdr_two" by code_simp
  have b2: "length (srcToHash drv_two) = MIN_INPUT_NUM_WORDS hdr_two + 1" by code_simp
  have b3: "length (buffTRndOut drv_two) = TRND_OUT_BUFFSIZE hdr_two" by code_simp
  have b4: "MIN_INPUT_NUM_WORDS hdr_two < 32767" by code_simp
  have b5: "1 < RND_IN_BUFFSIZE hdr_two div WORD_SIZE_BYTES hdr_two div MIN_INPUT_NUM_WORDS hdr_two"
    by code_simp
  have b6: "hash_inputs hdr_two drv_two = [replicate 10 0 @ [413145], replicate 10 0 @ [413146]]"
    by code_simp
  have b7: "blockSerialNumber drv_two = 413145" by code_simp
  have b8: "RND_IN_BUFFSIZE hdr_two div WORD_SIZE_BYTES hdr_two div MIN_INPUT_NUM_WORDS hdr_two = 2"
    by code_simp
  from t2 [THEN conjunct2, THEN conjunct1, rule_format, OF conjI [OF b1 conjI [OF b2 conjI [OF b3 conjI [OF b4 b5]]]], THEN conjunct2]
  have c2: "(case sha256_generateHash (k_table hdr_two) (replicate 10 0 @ [413146])
              (word_of_nat (MIN_INPUT_NUM_WORDS hdr_two + 1)) of
         None \<Rightarrow> False
       | Some d \<Rightarrow> take 32 (drop (32 * 1) (buffTRndOut (condition_block hdr_two drv_two)))
                     = concat (map word_bytes d))
     \<and> blockSerialNumber (condition_block hdr_two drv_two) = 413147"
    by (simp only: b6 b7 b8) simp
  have f1: "drv_ok hdr_example (drv_latched\<lparr>isDeviceOpPending := True\<rparr>)" by code_simp
  have f2: "isEntropySrcRdy (drv_latched\<lparr>isDeviceOpPending := True\<rparr>)"
    "\<not> isShutDown (drv_latched\<lparr>isDeviceOpPending := True\<rparr>)"
    by (simp_all add: drv_latched_def drv_example_def)
  have f3: "rcv_exchange hdr_example (drv_latched\<lparr>isDeviceOpPending := True\<rparr>) = (SUCCESS, drv_exchanged)"
    by (simp add: exchange_example SUCCESS_def)
  from t3 [THEN conjunct2, THEN conjunct2, THEN conjunct1, rule_format,
           OF conjI [OF refill_example conjI [OF f2(1) conjI [OF f2(2) f3]]]]
  have c3: "buffTRndOut (drv_refilled\<lparr>isDeviceOpPending := True\<rparr>)
       = buffTRndOut (condition_block hdr_example drv_exchanged)"
    by simp
  have c3': "blockSerialNumber (drv_refilled\<lparr>isDeviceOpPending := True\<rparr>) = 413146"
    by (simp add: drv_refilled_def)
  have g1: "hdr_ok hdr_example" by code_simp
  have g2: "length (srcToHash drv_exchanged) = MIN_INPUT_NUM_WORDS hdr_example + 1" by code_simp
  have g3: "length (buffTRndOut drv_exchanged) = TRND_OUT_BUFFSIZE hdr_example" by code_simp
  have g4: "MIN_INPUT_NUM_WORDS hdr_example < 32767" by code_simp
  have g5: "0 < RND_IN_BUFFSIZE hdr_example div WORD_SIZE_BYTES hdr_example div MIN_INPUT_NUM_WORDS hdr_example"
    by code_simp
  have g6: "hash_inputs hdr_example drv_exchanged = [replicate 10 0 @ [413145]]" by code_simp
  have g7: "replicate 10 0 @ [413145] = [0, 0, 0, 0, 0, 0, 0, 0, 0, 0, 413145::u32]" by code_simp
  from t4 [THEN conjunct2, THEN conjunct1, rule_format, OF conjI [OF g1 conjI [OF g2 conjI [OF g3 conjI [OF g4 g5]]]], THEN conjunct2, THEN conjunct1]
  have c4: "take 32 (drop (32 * 0) (buffTRndOut (condition_block hdr_example drv_exchanged)))
       = concat (map word_bytes [3283306696, 2183399749, 2762730705, 493944639,
                                 1760801533, 1529333858, 676896189, 386078000])"
    by (simp only: g6 nth_Cons_0 g7 generateHash_hdr_example option.case)
  have h1: "(0::nat) \<le> 1 \<and> 1 < length [replicate 11 (0::u32), replicate 11 0]
     \<and> length ([replicate 11 (0::u32), replicate 11 0] ! 0) = MIN_INPUT_NUM_WORDS hdr_example + 1
     \<and> length ([replicate 11 (0::u32), replicate 11 0] ! 1) = MIN_INPUT_NUM_WORDS hdr_example + 1"
    by (simp add: hdr_example_def)
  from t1 [THEN conjunct2, THEN conjunct2, THEN conjunct2, THEN conjunct2, THEN conjunct2, rule_format, OF h1]
  have c6: "fst (stamp_all hdr_example [replicate 11 0, replicate 11 0] 413145) ! 0
       \<noteq> fst (stamp_all hdr_example [replicate 11 0, replicate 11 0] 413145) ! 1"
    by simp
  from a c1 b1 b2 b3 b4 b5 b6 c2 f1 refill_example f3 g6 c4 c3 c3' c6
  show ?thesis by (simp only: simp_thms)
qed

section \<open>The self-test at start-up\<close>

lemma memcmp_tail_wrong:
  "memcmp (concat (map word_bytes [3283306696, 2183399749, 2762730705, 493944639,
                                   1760801533, 1529333858, 676896189, 386078000]))
     (concat (map word_bytes [3283306696, 2183399749, 0, 0, 0, 0, 0, 0])) 8 = 0"
  by code_simp

lemma memcmp_head_wrong:
  "memcmp (concat (map word_bytes [3283306696, 2183399749, 2762730705, 493944639,
                                   1760801533, 1529333858, 676896189, 386078000]))
     (concat (map word_bytes [3283306696, 0, 2762730705, 493944639,
                              1760801533, 1529333858, 676896189, 386078000])) 8 = 69"
  by code_simp

text \<open>
  C8, on the code: \<^verbatim>\<open>sha256_selfTest\<close> calls \<^verbatim>\<open>memcmp(results, exptHashSeq1, 8)\<close>, and
  the count of \<^verbatim>\<open>memcmp\<close> is in bytes: the first eight bytes of the digest, two of its
  eight words, are compared. With an expected vector that agrees with the digest of
  the test sequence in its first two words and in no other word the self-test returns
  0 and \<^verbatim>\<open>init_tlrandom\<close> succeeds; a wrong second word is found.
\<close>

theorem selfTest_compares_eight_bytes:
  "sha256_generateHash (k_table hdr_tail_wrong) (testSeq1 hdr_tail_wrong) 11
     = Some [3283306696, 2183399749, 2762730705, 493944639,
             1760801533, 1529333858, 676896189, 386078000]
   \<and> exptHashSeq1 hdr_tail_wrong = [3283306696, 2183399749, 0, 0, 0, 0, 0, 0]
   \<and> sha256_selfTest hdr_tail_wrong = 0
   \<and> fst (init_tlrandom hdr_tail_wrong init_env_example drv_example) = SUCCESS
   \<and> sha256_selfTest
        (hdr_example\<lparr>exptHashSeq1 := [3283306696, 0, 2762730705, 493944639,
                                        1760801533, 1529333858, 676896189, 386078000]\<rparr>) = 69"
proof -
  have g: "sha256_generateHash (k_table hdr_tail_wrong) (testSeq1 hdr_tail_wrong) 11
     = Some [3283306696, 2183399749, 2762730705, 493944639,
             1760801533, 1529333858, 676896189, 386078000]"
    using generateHash_example by (simp add: hdr_tail_wrong_def hdr_example_def)
  have e: "exptHashSeq1 hdr_tail_wrong = [3283306696, 2183399749, 0, 0, 0, 0, 0, 0]"
    by (simp add: hdr_tail_wrong_def)
  have t: "sha256_selfTest hdr_tail_wrong = 0"
    by (simp only: sha256_selfTest_def g e option.case memcmp_tail_wrong)
  have i: "fst (init_tlrandom hdr_tail_wrong init_env_example drv_example) = SUCCESS"
    by (simp add: init_tlrandom_def t SUCCESS_def init_env_example_def Let_def)
  have h: "sha256_selfTest
        (hdr_example\<lparr>exptHashSeq1 := [3283306696, 0, 2762730705, 493944639,
                                        1760801533, 1529333858, 676896189, 386078000]\<rparr>) = 69"
    using generateHash_example memcmp_head_wrong
    by (simp add: sha256_selfTest_def hdr_example_def)
  from g e t i h show ?thesis by simp
qed

theorem selfTest_compares_eight_bytes_witness:
  "sha256_selfTest hdr_tail_wrong = 0
   \<and> exptHashSeq1 hdr_tail_wrong \<noteq> [3283306696, 2183399749, 2762730705, 493944639,
                                      1760801533, 1529333858, 676896189, 386078000]"
  using selfTest_compares_eight_bytes by simp

end
